theory Spec2Isabelle
  imports Main
begin

section \<open>superagent-lite: the request execution engine\<close>

text \<open>
  A shallow embedding of \<^verbatim>\<open>request.ts\<close> (class \<^verbatim>\<open>Request\<close>: \<^verbatim>\<open>execute\<close>,
  \<^verbatim>\<open>doFetch\<close>, the promise interface and the response shortcuts), of
  \<^verbatim>\<open>errors.ts\<close> and of the part of \<^verbatim>\<open>response.ts\<close> the engine reads.

  Asynchronous code is sequential here: every \<^verbatim>\<open>await\<close> is a call that returns the
  value or the thrown error together with the new state. Everything outside the
  engine (the transport, the hooks supplied by the caller) acts on a world of an
  arbitrary type \<open>'w\<close>: a hook or a transport is a function from the world to its
  result and the next world, so it may answer differently at every call.
\<close>

subsection \<open>JavaScript values the engine inspects\<close>

text \<open>\<^verbatim>\<open>s.includes(pat)\<close> on strings.\<close>

fun str_includes :: "string \<Rightarrow> string \<Rightarrow> bool" where
  "str_includes [] pat = (pat = [])"
| "str_includes (c # cs) pat = (take (length pat) (c # cs) = pat \<or> str_includes cs pat)"

text \<open>
  Truthiness of \<^verbatim>\<open>string | undefined\<close> and of \<^verbatim>\<open>number | undefined\<close>:
  \<^verbatim>\<open>undefined\<close>, the empty string and \<open>0\<close> are falsy.
\<close>

fun truthy_string :: "string option \<Rightarrow> bool" where
  "truthy_string None = False"
| "truthy_string (Some s) = (s \<noteq> [])"

fun truthy_number :: "int option \<Rightarrow> bool" where
  "truthy_number None = False"
| "truthy_number (Some n) = (n \<noteq> 0)"

text \<open>\<^verbatim>\<open>a || b\<close> on \<^verbatim>\<open>number | undefined\<close>.\<close>

definition or_number :: "int option \<Rightarrow> int option \<Rightarrow> int option" where
  "or_number a b = (if truthy_number a then a else b)"

text \<open>\<^verbatim>\<open>h['content-type'] || ''\<close>.\<close>

definition or_empty :: "string option \<Rightarrow> string" where
  "or_empty v = (case v of None \<Rightarrow> [] | Some s \<Rightarrow> s)"

subsection \<open>Data model\<close>

text \<open>\<^verbatim>\<open>Record<string, string>\<close> read and written by key.\<close>

type_synonym header_map = "string \<rightharpoonup> string"

datatype blob = Blob string

text \<open>
  \<^verbatim>\<open>FileAttachment\<close> of \<^verbatim>\<open>types.ts\<close>: \<^verbatim>\<open>file: Blob | Buffer | string\<close>, with an
  optional file name.
\<close>

datatype file_source = FileString string | FileBuffer string | FileBlob blob

record file_attachment =
  att_name :: string
  att_file :: file_source
  att_filename :: "string option"

text \<open>One entry of a \<^verbatim>\<open>FormData\<close>, in the order of the \<^verbatim>\<open>append\<close> calls.\<close>

datatype form_part = FieldPart string string | FilePart string blob "string option"

text \<open>The \<^verbatim>\<open>body\<close> handed to the transport: \<^verbatim>\<open>string | FormData\<close> (\<^verbatim>\<open>undefined\<close> is \<open>None\<close>).\<close>

datatype payload = TextPayload string | FormDataPayload "form_part list"

text \<open>
  \<^verbatim>\<open>_body: any\<close>, by the cases \<^verbatim>\<open>doFetch\<close> distinguishes: \<^verbatim>\<open>undefined\<close>, a value with
  \<^verbatim>\<open>typeof\<close> equal to \<^verbatim>\<open>'object'\<close> (of an arbitrary type \<open>'o\<close>), and any other value,
  given by what \<^verbatim>\<open>String(value)\<close> returns.
\<close>

datatype 'o body_value = BodyUndefined | BodyObject 'o | BodyOther string

text \<open>
  What the engine reads of the transport's \<^verbatim>\<open>globalThis.Response\<close>: \<open>n_text\<close> is the
  result of \<^verbatim>\<open>await fetchResponse.text()\<close>, \<open>n_contentType\<close> the result of
  \<^verbatim>\<open>headers.get('content-type')\<close>.
\<close>

record native_response =
  n_status :: int
  n_statusText :: string
  n_ok :: bool
  n_contentType :: "string option"
  n_text :: string

text \<open>\<^verbatim>\<open>responseBody\<close>: the text, or the value \<^verbatim>\<open>_parseJson\<close> returned (of type \<open>'j\<close>).\<close>

datatype 'j decoded = RawText string | Json 'j

text \<open>
  Class \<^verbatim>\<open>Response\<close>. The fields \<^verbatim>\<open>headers\<close>, \<^verbatim>\<open>type\<close> and \<^verbatim>\<open>charset\<close>, which the
  constructor derives from the native headers and the engine never reads, are left out;
  \<open>native\<close> is \<^verbatim>\<open>_response\<close>.
\<close>

record 'j response =
  status :: int
  statusText :: string
  ok :: bool
  res_text :: string
  body :: "'j decoded"
  native :: native_response

definition new_Response :: "native_response \<Rightarrow> string \<Rightarrow> 'j decoded \<Rightarrow> 'j response" where
  "new_Response nativeResponse txt bdy =
     \<lparr> status = n_status nativeResponse,
       statusText = n_statusText nativeResponse,
       ok = n_ok nativeResponse,
       res_text = txt,
       body = bdy,
       native = nativeResponse \<rparr>"

text \<open>
  Thrown values. \<open>HTTPError\<close> and \<open>TimeoutError\<close> are the classes of \<^verbatim>\<open>errors.ts\<close>;
  \<open>AbortError\<close> is any error whose \<^verbatim>\<open>name\<close> is \<^verbatim>\<open>'AbortError'\<close> (what \<^verbatim>\<open>fetch\<close> rejects
  with when its signal fires); \<open>TypeError\<close> is what reading a property of
  \<^verbatim>\<open>undefined\<close> or \<^verbatim>\<open>null\<close> throws; \<open>OtherError\<close> is any other error object, with its
  message; \<open>Nullish\<close> is the value \<^verbatim>\<open>undefined\<close> or \<^verbatim>\<open>null\<close> used as an error.
\<close>

datatype 'j error =
    HTTPError "'j response"
  | TimeoutError
  | AbortError
  | TypeError
  | OtherError string
  | Nullish

text \<open>\<^verbatim>\<open>HTTPError.status\<close> is the status of the response the error was built from.\<close>

fun error_status :: "'j error \<Rightarrow> int option" where
  "error_status (HTTPError r) = Some (status r)"
| "error_status _ = None"

text \<open>
  \<^verbatim>\<open>TimeoutOptions\<close> and \<^verbatim>\<open>RetryOptions\<close> of \<^verbatim>\<open>types.ts\<close>; an absent field is \<open>None\<close>.
  A \<^verbatim>\<open>number\<close> is an integer here (durations in milliseconds, the retry limit, status
  codes); the attempt number given to the delay function is \<^verbatim>\<open>attempt + 1\<close> for a
  loop counter that starts at 0, a natural number.
\<close>

record timeout_options =
  request_ms :: "int option"
  response_ms :: "int option"

record retry_options =
  limit :: "int option"
  methods :: "string list option"
  statusCodes :: "int list option"
  delay :: "(nat \<Rightarrow> int) option"

text \<open>
  The four hook lists. A hook is code of the caller: it reads its argument, acts on the
  world and returns or throws.
  \<^item> before-request: \<open>Some e\<close> when it throws \<open>e\<close>; its return value is ignored by the
    engine. It receives the request itself; that a hook reconfigures the request it is
    given is not modelled.
  \<^item> after-response: \<open>Inl e\<close> when it throws, else \<open>Inr\<close> of the returned
    \<^verbatim>\<open>Response | void\<close>.
  \<^item> before-retry: receives the failure and the upcoming attempt number.
  \<^item> before-error: \<open>Inl e\<close> when it throws, else \<open>Inr\<close> of the value it returns
    (\<open>Nullish\<close> when it returns nothing).
\<close>

type_synonym ('j, 'w) before_request_hook = "'w \<Rightarrow> 'j error option \<times> 'w"
type_synonym ('j, 'w) after_response_hook =
  "'j response \<Rightarrow> 'w \<Rightarrow> ('j error + 'j response option) \<times> 'w"
type_synonym ('j, 'w) before_retry_hook = "'j error \<Rightarrow> nat \<Rightarrow> 'w \<Rightarrow> 'j error option \<times> 'w"
type_synonym ('j, 'w) before_error_hook = "'j error \<Rightarrow> 'w \<Rightarrow> ('j error + 'j error) \<times> 'w"

record ('j, 'w) hooks =
  beforeRequest :: "('j, 'w) before_request_hook list"
  afterResponse :: "('j, 'w) after_response_hook list"
  beforeRetry :: "('j, 'w) before_retry_hook list"
  beforeError :: "('j, 'w) before_error_hook list"

text \<open>The arguments of the transport call \<^verbatim>\<open>_customFetch(url, init)\<close>, the signal apart.\<close>

record fetch_call =
  f_url :: string
  f_method :: string
  f_headers :: header_map
  f_body :: "payload option"
  f_credentials :: string
  f_redirect :: string

text \<open>
  The transport: \<^verbatim>\<open>await _customFetch(...)\<close> followed by \<^verbatim>\<open>await fetchResponse.text()\<close>
  either rejects (with \<open>AbortError\<close> when the attempt's signal fired first: the timer, the
  external signal or \<^verbatim>\<open>abort()\<close>) or yields the native response with its text.
\<close>

datatype 'j fetch_result = Rejected "'j error" | Resolved native_response

text \<open>
  The private fields of class \<^verbatim>\<open>Request\<close> (\<^verbatim>\<open>_url\<close> is \<open>req_url\<close>, and so on).
  \<open>req_query\<close> and \<open>req_formFields\<close> are the records as \<^verbatim>\<open>Object.entries\<close> lists them.
  The abort controller and the external signal act through the transport only.
\<close>

record ('o, 'j, 'w) request =
  req_url :: string
  req_method :: string
  req_headers :: header_map
  req_query :: "(string \<times> string) list"
  req_body :: "'o body_value"
  req_timeout :: timeout_options
  req_retry :: retry_options
  req_hooks :: "('j, 'w) hooks"
  req_throwHttpErrors :: bool
  req_parseJson :: "string \<Rightarrow> 'j option"
  req_stringifyJson :: "'o \<Rightarrow> string"
  req_credentials :: string
  req_redirect :: string
  req_customFetch :: "fetch_call \<Rightarrow> 'w \<Rightarrow> 'j fetch_result \<times> 'w"
  req_attachments :: "file_attachment list"
  req_formFields :: "(string \<times> string) list"

text \<open>
  The platform: \<^verbatim>\<open>URLSearchParams(...).toString()\<close> on the query record and on an
  object body, and the native response's \<^verbatim>\<open>blob()\<close> and \<^verbatim>\<open>arrayBuffer()\<close>, which
  reject or yield the content.
\<close>

record ('o, 'j) platform =
  encodeQuery :: "(string \<times> string) list \<Rightarrow> string"
  encodeObject :: "'o \<Rightarrow> string"
  nativeBlob :: "native_response \<Rightarrow> 'j error + blob"
  nativeArrayBuffer :: "native_response \<Rightarrow> 'j error + string"

subsection \<open>Body encoding (the first half of \<^verbatim>\<open>doFetch\<close>)\<close>

definition buildUrl :: "('o, 'j) platform \<Rightarrow> ('o, 'j, 'w) request \<Rightarrow> string" where
  "buildUrl pf rq =
     (if req_query rq \<noteq> []
      then req_url rq
             @ (if CHR ''?'' \<in> set (req_url rq) then ''&'' else ''?'')
             @ encodeQuery pf (req_query rq)
      else req_url rq)"

text \<open>\<^verbatim>\<open>formData.append(name, file-as-Blob, filename)\<close> for one attachment.\<close>

definition attachment_part :: "file_attachment \<Rightarrow> form_part" where
  "attachment_part a =
     (case att_file a of
        FileString s \<Rightarrow> FilePart (att_name a) (Blob s) (att_filename a)
      | FileBuffer b \<Rightarrow> FilePart (att_name a) (Blob b) (att_filename a)
      | FileBlob bl \<Rightarrow> FilePart (att_name a) bl (att_filename a))"

definition field_part :: "string \<times> string \<Rightarrow> form_part" where
  "field_part kv = FieldPart (fst kv) (snd kv)"

text \<open>
  The \<^verbatim>\<open>// Prepare body\<close> block: the payload and the header record it leaves in
  \<^verbatim>\<open>this._headers\<close>.
\<close>

definition prepareBody ::
  "('o, 'j) platform \<Rightarrow> ('o, 'j, 'w) request \<Rightarrow> payload option \<times> header_map" where
  "prepareBody pf rq =
     (let hasAttachments = (req_attachments rq \<noteq> []);
          hasFormFields = (req_formFields rq \<noteq> [])
      in if hasAttachments \<or> hasFormFields then
           (Some (FormDataPayload
                    (map field_part (req_formFields rq)
                       @ map attachment_part (req_attachments rq))),
            (req_headers rq)(''content-type'' := None))
         else
           (case req_body rq of
              BodyUndefined \<Rightarrow> (None, req_headers rq)
            | BodyObject obj \<Rightarrow>
                (let contentType = or_empty (req_headers rq ''content-type'')
                 in if str_includes contentType ''form-urlencoded'' then
                      (Some (TextPayload (encodeObject pf obj)), req_headers rq)
                    else
                      (Some (TextPayload (req_stringifyJson rq obj)),
                       if \<not> truthy_string (req_headers rq ''content-type'')
                       then (req_headers rq)(''content-type'' \<mapsto> ''application/json'')
                       else req_headers rq))
            | BodyOther s \<Rightarrow> (Some (TextPayload s), req_headers rq)))"

subsection \<open>The engine's state\<close>

text \<open>
  What an execution leaves behind, kept as a trace (it is not a variable of the source):
  every call of \<^verbatim>\<open>doFetch\<close>, of the transport, of a hook (with the hook's position in
  its list; before-retry also with the attempt number it is given) and every backoff
  wait \<^verbatim>\<open>await new Promise(resolve => setTimeout(resolve, delay))\<close>, in order.
\<close>

datatype event =
    DoFetchCalled
  | TransportCalled fetch_call
  | BeforeRequestCalled nat
  | AfterResponseCalled nat
  | BeforeRetryCalled nat nat
  | BeforeErrorCalled nat
  | Waited int

text \<open>
  The request object, the world, the trace, and the timers of the runtime that were set
  with \<^verbatim>\<open>setTimeout\<close> and not cleared with \<^verbatim>\<open>clearTimeout\<close> (handle and duration).
  Handles are positive, hence truthy. A timer that is not cleared fires when its duration
  has passed and aborts the controller that is current then; that a timer fired during
  an attempt shows in the transport's answer (\<open>AbortError\<close>).
\<close>

record ('o, 'j, 'w) state =
  req :: "('o, 'j, 'w) request"
  world :: 'w
  trace :: "event list"
  timers :: "(nat \<times> int) list"
  lastTimerId :: nat

definition emit :: "event \<Rightarrow> ('o, 'j, 'w) state \<Rightarrow> ('o, 'j, 'w) state" where
  "emit ev s = s\<lparr>trace := trace s @ [ev]\<rparr>"

definition setTimeout :: "int \<Rightarrow> ('o, 'j, 'w) state \<Rightarrow> nat \<times> ('o, 'j, 'w) state" where
  "setTimeout ms s =
     (let h = Suc (lastTimerId s)
      in (h, s\<lparr>timers := timers s @ [(h, ms)], lastTimerId := h\<rparr>))"

definition clearTimeout :: "nat \<Rightarrow> ('o, 'j, 'w) state \<Rightarrow> ('o, 'j, 'w) state" where
  "clearTimeout h s = s\<lparr>timers := filter (\<lambda>t. fst t \<noteq> h) (timers s)\<rparr>"

subsection \<open>The hook loops\<close>

text \<open>\<^verbatim>\<open>for (const hook of this._hooks.beforeRequest) await hook(this)\<close>: the first hook
  that throws ends the loop; the result is the thrown error, if any.\<close>

fun run_beforeRequest ::
  "('j, 'w) before_request_hook list \<Rightarrow> nat \<Rightarrow> ('o, 'j, 'w) state
     \<Rightarrow> 'j error option \<times> ('o, 'j, 'w) state" where
  "run_beforeRequest [] i s = (None, s)"
| "run_beforeRequest (hook # hs) i s =
     (case hook (world s) of
        (Some e, w) \<Rightarrow> (Some e, (emit (BeforeRequestCalled i) s)\<lparr>world := w\<rparr>)
      | (None, w) \<Rightarrow>
          run_beforeRequest hs (Suc i) ((emit (BeforeRequestCalled i) s)\<lparr>world := w\<rparr>))"

text \<open>\<^verbatim>\<open>const result = await hook(response); if (result) response = result\<close>.\<close>

fun run_afterResponse ::
  "('j, 'w) after_response_hook list \<Rightarrow> nat \<Rightarrow> 'j response \<Rightarrow> ('o, 'j, 'w) state
     \<Rightarrow> ('j error + 'j response) \<times> ('o, 'j, 'w) state" where
  "run_afterResponse [] i response s = (Inr response, s)"
| "run_afterResponse (hook # hs) i response s =
     (case hook response (world s) of
        (Inl e, w) \<Rightarrow> (Inl e, (emit (AfterResponseCalled i) s)\<lparr>world := w\<rparr>)
      | (Inr result, w) \<Rightarrow>
          run_afterResponse hs (Suc i)
            (case result of Some replacement \<Rightarrow> replacement | None \<Rightarrow> response)
            ((emit (AfterResponseCalled i) s)\<lparr>world := w\<rparr>))"

text \<open>
  \<^verbatim>\<open>for (const hook of this._hooks.beforeError) error = await hook(error); throw error\<close>:
  the result is the value thrown, by a hook or by the \<^verbatim>\<open>throw\<close> after the loop.
\<close>

fun run_beforeError ::
  "('j, 'w) before_error_hook list \<Rightarrow> nat \<Rightarrow> 'j error \<Rightarrow> ('o, 'j, 'w) state
     \<Rightarrow> 'j error \<times> ('o, 'j, 'w) state" where
  "run_beforeError [] i err s = (err, s)"
| "run_beforeError (hook # hs) i err s =
     (case hook err (world s) of
        (Inl thrown, w) \<Rightarrow> (thrown, (emit (BeforeErrorCalled i) s)\<lparr>world := w\<rparr>)
      | (Inr returned, w) \<Rightarrow>
          run_beforeError hs (Suc i) returned ((emit (BeforeErrorCalled i) s)\<lparr>world := w\<rparr>))"

text \<open>\<^verbatim>\<open>for (const hook of this._hooks.beforeRetry) await hook(lastError, attempt + 1)\<close>.\<close>

fun run_beforeRetry ::
  "('j, 'w) before_retry_hook list \<Rightarrow> nat \<Rightarrow> 'j error \<Rightarrow> nat \<Rightarrow> ('o, 'j, 'w) state
     \<Rightarrow> 'j error option \<times> ('o, 'j, 'w) state" where
  "run_beforeRetry [] i err n s = (None, s)"
| "run_beforeRetry (hook # hs) i err n s =
     (case hook err n (world s) of
        (Some e, w) \<Rightarrow> (Some e, (emit (BeforeRetryCalled i n) s)\<lparr>world := w\<rparr>)
      | (None, w) \<Rightarrow>
          run_beforeRetry hs (Suc i) err n ((emit (BeforeRetryCalled i n) s)\<lparr>world := w\<rparr>))"

subsection \<open>The attempt executor \<^verbatim>\<open>doFetch\<close>\<close>

text \<open>
  \<^verbatim>\<open>responseBody\<close>: the text, parsed by \<^verbatim>\<open>_parseJson\<close> when the content type contains
  \<^verbatim>\<open>application/json\<close> and the text is not empty; a parser that throws leaves the text.
\<close>

definition decodeBody :: "('o, 'j, 'w) request \<Rightarrow> native_response \<Rightarrow> 'j decoded" where
  "decodeBody rq fetchResponse =
     (let txt = n_text fetchResponse;
          contentType = or_empty (n_contentType fetchResponse)
      in if str_includes contentType ''application/json'' \<and> txt \<noteq> []
         then (case req_parseJson rq txt of
                 Some j \<Rightarrow> Json j
               | None \<Rightarrow> RawText txt)
         else RawText txt)"

text \<open>
  The \<^verbatim>\<open>try\<close> block: the transport call, the decoding of the body, the after-response
  hooks, and the before-error hooks with the \<^verbatim>\<open>throw\<close> when the native response is not
  ok. \<open>Inl\<close> is the value thrown inside the block.
\<close>

definition try_block ::
  "string \<Rightarrow> payload option \<Rightarrow> ('o, 'j, 'w) state
     \<Rightarrow> ('j error + 'j response) \<times> ('o, 'j, 'w) state" where
  "try_block url bdy s =
     (let rq = req s;
          call = \<lparr> f_url = url, f_method = req_method rq, f_headers = req_headers rq,
                   f_body = bdy, f_credentials = req_credentials rq,
                   f_redirect = req_redirect rq \<rparr>;
          s1 = emit (TransportCalled call) s
      in case req_customFetch rq call (world s1) of
           (Rejected e, w) \<Rightarrow> (Inl e, s1\<lparr>world := w\<rparr>)
         | (Resolved fetchResponse, w) \<Rightarrow>
             (let s2 = s1\<lparr>world := w\<rparr>;
                  response = new_Response fetchResponse (n_text fetchResponse)
                               (decodeBody rq fetchResponse)
              in case run_afterResponse (afterResponse (req_hooks rq)) 0 response s2 of
                   (Inl e, s3) \<Rightarrow> (Inl e, s3)
                 | (Inr response', s3) \<Rightarrow>
                     if req_throwHttpErrors rq \<and> \<not> n_ok fetchResponse then
                       (case run_beforeError (beforeError (req_hooks rq)) 0
                               (HTTPError response') s3 of
                          (err, s4) \<Rightarrow> (Inl err, s4))
                     else (Inr response', s3)))"

text \<open>
  The \<^verbatim>\<open>catch\<close> block: \<^verbatim>\<open>(error as Error).name === 'AbortError'\<close> becomes a
  \<open>TimeoutError\<close>; reading \<^verbatim>\<open>name\<close> of \<^verbatim>\<open>undefined\<close> throws a \<open>TypeError\<close>; any other
  value is thrown again.
\<close>

fun catch_block :: "'j error \<Rightarrow> 'j error" where
  "catch_block Nullish = TypeError"
| "catch_block AbortError = TimeoutError"
| "catch_block e = e"

text \<open>The \<^verbatim>\<open>finally\<close> block: \<^verbatim>\<open>if (timeoutId) clearTimeout(timeoutId)\<close>.\<close>

definition finally_block :: "nat option \<Rightarrow> ('o, 'j, 'w) state \<Rightarrow> ('o, 'j, 'w) state" where
  "finally_block timeoutId s = (case timeoutId of None \<Rightarrow> s | Some h \<Rightarrow> clearTimeout h s)"

text \<open>\<^verbatim>\<open>if (timeoutMs) timeoutId = setTimeout(() => abort, timeoutMs)\<close>.\<close>

definition startTimer ::
  "int option \<Rightarrow> ('o, 'j, 'w) state \<Rightarrow> nat option \<times> ('o, 'j, 'w) state" where
  "startTimer timeoutMs s =
     (case timeoutMs of
        None \<Rightarrow> (None, s)
      | Some ms \<Rightarrow>
          if ms \<noteq> 0 then (case setTimeout ms s of (h, s') \<Rightarrow> (Some h, s'))
          else (None, s))"

text \<open>
  \<^verbatim>\<open>doFetch\<close>, in the order of the source: URL, body and headers, timer, before-request
  hooks (outside the \<^verbatim>\<open>try\<close>), then \<^verbatim>\<open>try\<close>/\<^verbatim>\<open>catch\<close>/\<^verbatim>\<open>finally\<close>.
\<close>

definition doFetch ::
  "('o, 'j) platform \<Rightarrow> ('o, 'j, 'w) state
     \<Rightarrow> ('j error + 'j response) \<times> ('o, 'j, 'w) state" where
  "doFetch pf s0 =
     (let s1 = emit DoFetchCalled s0;
          url = buildUrl pf (req s1);
          prepared = prepareBody pf (req s1);
          s2 = s1\<lparr>req := (req s1)\<lparr>req_headers := snd prepared\<rparr>\<rparr>;
          timeoutMs = or_number (request_ms (req_timeout (req s2)))
                                (response_ms (req_timeout (req s2)))
      in case startTimer timeoutMs s2 of
           (timeoutId, s3) \<Rightarrow>
             (case run_beforeRequest (beforeRequest (req_hooks (req s3))) 0 s3 of
                (Some e, s4) \<Rightarrow> (Inl e, s4)
              | (None, s4) \<Rightarrow>
                  (case try_block url (fst prepared) s4 of
                     (Inl e, s5) \<Rightarrow> (Inl (catch_block e), finally_block timeoutId s5)
                   | (Inr response, s5) \<Rightarrow> (Inr response, finally_block timeoutId s5))))"

subsection \<open>The execution loop \<^verbatim>\<open>execute\<close>\<close>

definition DEFAULT_RETRY_METHODS :: "string list" where
  "DEFAULT_RETRY_METHODS = [''GET'', ''HEAD'', ''OPTIONS'', ''PUT'', ''DELETE'']"

definition DEFAULT_RETRY_STATUS_CODES :: "int list" where
  "DEFAULT_RETRY_STATUS_CODES = [408, 413, 429, 500, 502, 503, 504]"

text \<open>
  \<^verbatim>\<open>Math.min(1000 * 2 ** (attemptCount - 1), 30000)\<close>. The loop calls it with
  \<^verbatim>\<open>attempt + 1\<close>, a positive integer; at \<open>0\<close> the source computes \<open>1000 * 2 ** -1\<close>.
\<close>

definition defaultRetryDelay :: "nat \<Rightarrow> int" where
  "defaultRetryDelay attemptCount =
     (if attemptCount = 0 then 500 else min (1000 * 2 ^ (attemptCount - 1)) 30000)"

fun is_TimeoutError :: "'j error \<Rightarrow> bool" where
  "is_TimeoutError TimeoutError = True"
| "is_TimeoutError _ = False"

text \<open>
  \<^verbatim>\<open>lastError instanceof HTTPError && !retryStatusCodes.includes(lastError.status)\<close>.
\<close>

definition http_status_not_retryable :: "int list \<Rightarrow> 'j error \<Rightarrow> bool" where
  "http_status_not_retryable codes err =
     (case error_status err of None \<Rightarrow> False | Some st \<Rightarrow> st \<notin> set codes)"

text \<open>
  The \<^verbatim>\<open>for (let attempt = 0; attempt <= retryLimit; attempt++)\<close> loop with its
  \<^verbatim>\<open>try\<close>/\<^verbatim>\<open>catch\<close>, and the \<^verbatim>\<open>throw lastError\<close> after it. The parameters \<open>lim\<close>,
  \<open>allowed\<close>, \<open>codes\<close> and \<open>delayOf\<close> are the constants \<^verbatim>\<open>retryLimit\<close>,
  \<^verbatim>\<open>retryMethods\<close>, \<^verbatim>\<open>retryStatusCodes\<close> and \<^verbatim>\<open>retryDelay\<close> of \<^verbatim>\<open>execute\<close>.
\<close>

function execute_loop ::
  "('o, 'j) platform \<Rightarrow> int \<Rightarrow> string list \<Rightarrow> int list \<Rightarrow> (nat \<Rightarrow> int) \<Rightarrow> nat \<Rightarrow> 'j error
     \<Rightarrow> ('o, 'j, 'w) state \<Rightarrow> ('j error + 'j response) \<times> ('o, 'j, 'w) state" where
  "execute_loop pf lim allowed codes delayOf attempt lastError s =
     (if int attempt \<le> lim then
        (case doFetch pf s of
           (Inr response, s1) \<Rightarrow> (Inr response, s1)
         | (Inl err, s1) \<Rightarrow>
             if req_method (req s1) \<notin> set allowed then (Inl err, s1)
             else if is_TimeoutError err then (Inl err, s1)
             else if http_status_not_retryable codes err then (Inl err, s1)
             else if int attempt \<ge> lim then (Inl err, s1)
             else
               (case run_beforeRetry (beforeRetry (req_hooks (req s1))) 0 err (attempt + 1) s1 of
                  (Some e, s2) \<Rightarrow> (Inl e, s2)
                | (None, s2) \<Rightarrow>
                    execute_loop pf lim allowed codes delayOf
                      (attempt + 1) err (emit (Waited (delayOf (attempt + 1))) s2)))
      else (Inl lastError, s))"
  by pat_completeness auto
termination
  by (relation "measure (\<lambda>(pf, lim, allowed, codes, delayOf, attempt, e, s).
                 nat (lim + 1 - int attempt))") auto

declare execute_loop.simps [simp del]

text \<open>
  The four constants \<^verbatim>\<open>execute\<close> reads first:
  \<^verbatim>\<open>this._retry.limit ?? 0\<close>, \<^verbatim>\<open>this._retry.methods ?? DEFAULT_RETRY_METHODS\<close>,
  \<^verbatim>\<open>this._retry.statusCodes ?? DEFAULT_RETRY_STATUS_CODES\<close> and
  \<^verbatim>\<open>this._retry.delay ?? defaultRetryDelay\<close>.
\<close>

definition retryLimit :: "('o, 'j, 'w) request \<Rightarrow> int" where
  "retryLimit rq = (case limit (req_retry rq) of Some l \<Rightarrow> l | None \<Rightarrow> 0)"

definition retryMethods :: "('o, 'j, 'w) request \<Rightarrow> string list" where
  "retryMethods rq =
     (case methods (req_retry rq) of Some ms \<Rightarrow> ms | None \<Rightarrow> DEFAULT_RETRY_METHODS)"

definition retryStatusCodes :: "('o, 'j, 'w) request \<Rightarrow> int list" where
  "retryStatusCodes rq =
     (case statusCodes (req_retry rq) of Some cs \<Rightarrow> cs | None \<Rightarrow> DEFAULT_RETRY_STATUS_CODES)"

definition retryDelay :: "('o, 'j, 'w) request \<Rightarrow> nat \<Rightarrow> int" where
  "retryDelay rq = (case delay (req_retry rq) of Some d \<Rightarrow> d | None \<Rightarrow> defaultRetryDelay)"

definition execute ::
  "('o, 'j) platform \<Rightarrow> ('o, 'j, 'w) state
     \<Rightarrow> ('j error + 'j response) \<times> ('o, 'j, 'w) state" where
  "execute pf s =
     execute_loop pf (retryLimit (req s)) (retryMethods (req s)) (retryStatusCodes (req s))
       (retryDelay (req s)) 0 Nullish s"

subsection \<open>Promise interface and response shortcuts\<close>

text \<open>\<^verbatim>\<open>then\<close>, \<^verbatim>\<open>catch\<close>, \<^verbatim>\<open>finally\<close> and \<^verbatim>\<open>end\<close> settle with the outcome of \<^verbatim>\<open>execute\<close>.\<close>

definition Request_then ::
  "('o, 'j) platform \<Rightarrow> ('o, 'j, 'w) state
     \<Rightarrow> ('j error + 'j response) \<times> ('o, 'j, 'w) state" where
  "Request_then pf s = execute pf s"

definition Request_end ::
  "('o, 'j) platform \<Rightarrow> ('o, 'j, 'w) state
     \<Rightarrow> ('j error + 'j response) \<times> ('o, 'j, 'w) state" where
  "Request_end pf s = execute pf s"

definition Request_json ::
  "('o, 'j) platform \<Rightarrow> ('o, 'j, 'w) state \<Rightarrow> ('j error + 'j decoded) \<times> ('o, 'j, 'w) state" where
  "Request_json pf s =
     (case execute pf s of
        (Inl e, s') \<Rightarrow> (Inl e, s')
      | (Inr res, s') \<Rightarrow> (Inr (body res), s'))"

definition Request_text ::
  "('o, 'j) platform \<Rightarrow> ('o, 'j, 'w) state \<Rightarrow> ('j error + string) \<times> ('o, 'j, 'w) state" where
  "Request_text pf s =
     (case execute pf s of
        (Inl e, s') \<Rightarrow> (Inl e, s')
      | (Inr res, s') \<Rightarrow> (Inr (res_text res), s'))"

definition Request_blob ::
  "('o, 'j) platform \<Rightarrow> ('o, 'j, 'w) state \<Rightarrow> ('j error + blob) \<times> ('o, 'j, 'w) state" where
  "Request_blob pf s =
     (case doFetch pf s of
        (Inl e, s') \<Rightarrow> (Inl e, s')
      | (Inr response, s') \<Rightarrow> (nativeBlob pf (native response), s'))"

definition Request_arrayBuffer ::
  "('o, 'j) platform \<Rightarrow> ('o, 'j, 'w) state \<Rightarrow> ('j error + string) \<times> ('o, 'j, 'w) state" where
  "Request_arrayBuffer pf s =
     (case doFetch pf s of
        (Inl e, s') \<Rightarrow> (Inl e, s')
      | (Inr response, s') \<Rightarrow> (nativeArrayBuffer pf (native response), s'))"

text \<open>A new request is executed from a state with no trace and no timer.\<close>

definition initial :: "('o, 'j, 'w) request \<Rightarrow> 'w \<Rightarrow> ('o, 'j, 'w) state" where
  "initial rq w = \<lparr> req = rq, world = w, trace = [], timers = [], lastTimerId = 0 \<rparr>"

subsection \<open>Reading a trace\<close>

fun is_DoFetchCalled :: "event \<Rightarrow> bool" where
  "is_DoFetchCalled DoFetchCalled = True"
| "is_DoFetchCalled _ = False"

fun is_TransportCalled :: "event \<Rightarrow> bool" where
  "is_TransportCalled (TransportCalled c) = True"
| "is_TransportCalled _ = False"

fun is_BeforeRetryCalled :: "event \<Rightarrow> bool" where
  "is_BeforeRetryCalled (BeforeRetryCalled i n) = True"
| "is_BeforeRetryCalled _ = False"

text \<open>The number of attempts: calls of the attempt executor.\<close>

definition attempts :: "event list \<Rightarrow> nat" where
  "attempts tr = length (filter is_DoFetchCalled tr)"

text \<open>The attempt numbers the before-retry hook at position \<open>i\<close> was called with, in order.\<close>

fun retry_calls :: "nat \<Rightarrow> event list \<Rightarrow> nat list" where
  "retry_calls i [] = []"
| "retry_calls i (BeforeRetryCalled j n # tr) =
     (if j = i then n # retry_calls i tr else retry_calls i tr)"
| "retry_calls i (ev # tr) = retry_calls i tr"

text \<open>The backoff delays waited, in order.\<close>

fun waits :: "event list \<Rightarrow> int list" where
  "waits [] = []"
| "waits (Waited d # tr) = d # waits tr"
| "waits (ev # tr) = waits tr"

text \<open>The number of transport calls.\<close>

definition transport_calls :: "event list \<Rightarrow> nat" where
  "transport_calls tr = length (filter is_TransportCalled tr)"

text \<open>The events of the hooks that run inside one attempt.\<close>

fun hook_event :: "event \<Rightarrow> bool" where
  "hook_event (BeforeRequestCalled i) = True"
| "hook_event (AfterResponseCalled i) = True"
| "hook_event (BeforeErrorCalled i) = True"
| "hook_event _ = False"

text \<open>
  \<open>extends s s' evs\<close>: from \<open>s\<close> to \<open>s'\<close> the events \<open>evs\<close> happened, and neither the request
  nor the timers changed.
\<close>

definition extends ::
  "('o, 'j, 'w) state \<Rightarrow> ('o, 'j, 'w) state \<Rightarrow> event list \<Rightarrow> bool" where
  "extends s s' evs =
     (req s' = req s \<and> timers s' = timers s \<and> lastTimerId s' = lastTimerId s
        \<and> trace s' = trace s @ evs)"

subsection \<open>The environments the properties speak about\<close>

text \<open>An \<open>HTTPError\<close> whose status is in the retryable status set.\<close>

definition retryable_http_error :: "int list \<Rightarrow> 'j error \<Rightarrow> bool" where
  "retryable_http_error codes e =
     (case e of HTTPError r \<Rightarrow> status r \<in> set codes | _ \<Rightarrow> False)"

text \<open>
  A transport that always fails with a retryable status: every call yields a response
  that is not ok and whose status is in the set.
\<close>

definition transport_fails_retryably :: "int list \<Rightarrow> ('o, 'j, 'w) request \<Rightarrow> bool" where
  "transport_fails_retryably codes rq =
     (\<forall>call w. \<exists>nr w'. req_customFetch rq call w = (Resolved nr, w')
         \<and> \<not> n_ok nr \<and> n_status nr \<in> set codes)"

text \<open>
  Hooks that leave such a failure a failure: none throws, an after-response hook returns
  nothing or a response whose status is retryable as well, and a before-error hook
  given an \<open>HTTPError\<close> with a retryable status returns one.
\<close>

definition hooks_keep_failure :: "int list \<Rightarrow> ('j, 'w) hooks \<Rightarrow> bool" where
  "hooks_keep_failure codes hk =
     ((\<forall>g\<in>set (beforeRequest hk). \<forall>w. fst (g w) = None)
      \<and> (\<forall>g\<in>set (afterResponse hk). \<forall>r w.
            case fst (g r w) of
              Inl e \<Rightarrow> False
            | Inr None \<Rightarrow> True
            | Inr (Some r') \<Rightarrow> status r' \<in> set codes)
      \<and> (\<forall>g\<in>set (beforeError hk). \<forall>e w. retryable_http_error codes e \<longrightarrow>
            (case fst (g e w) of
               Inl thrown \<Rightarrow> False
             | Inr e' \<Rightarrow> retryable_http_error codes e'))
      \<and> (\<forall>g\<in>set (beforeRetry hk). \<forall>e n w. fst (g e n w) = None))"

subsection \<open>An example request\<close>

text \<open>
  A \<^verbatim>\<open>GET\<close> with \<^verbatim>\<open>retry(2)\<close> and \<^verbatim>\<open>timeout(5000)\<close> against a server that always answers
  503; the world counts the transport calls. Objects and parsed JSON are their source
  text. Reading \<^verbatim>\<open>blob()\<close> of a native response whose text was read already throws.
\<close>

definition unavailable :: native_response where
  "unavailable = \<lparr> n_status = 503, n_statusText = ''Service Unavailable'', n_ok = False,
                    n_contentType = None, n_text = ''busy'' \<rparr>"

definition example_platform :: "(string, string) platform" where
  "example_platform =
     \<lparr> encodeQuery = (\<lambda>q. concat (map (\<lambda>kv. fst kv @ ''='' @ snd kv) q)),
       encodeObject = (\<lambda>obj. obj),
       nativeBlob = (\<lambda>n. Inl TypeError),
       nativeArrayBuffer = (\<lambda>n. Inl TypeError) \<rparr>"

definition example_request :: "(string, string, nat) request" where
  "example_request =
     \<lparr> req_url = ''https://api.example.com/users'',
       req_method = ''GET'',
       req_headers = Map.empty,
       req_query = [],
       req_body = BodyUndefined,
       req_timeout = \<lparr> request_ms = Some 5000, response_ms = None \<rparr>,
       req_retry = \<lparr> limit = Some 2, methods = None, statusCodes = None, delay = None \<rparr>,
       req_hooks = \<lparr> beforeRequest = [], afterResponse = [\<lambda>r w. (Inr None, w)],
                     beforeRetry = [\<lambda>e n w. (None, w)], beforeError = [] \<rparr>,
       req_throwHttpErrors = True,
       req_parseJson = (\<lambda>t. Some t),
       req_stringifyJson = (\<lambda>obj. obj),
       req_credentials = ''same-origin'',
       req_redirect = ''follow'',
       req_customFetch = (\<lambda>call w. (Resolved unavailable, Suc w)),
       req_attachments = [],
       req_formFields = [] \<rparr>"

text \<open>The same request as a \<^verbatim>\<open>POST\<close>, a method outside the default allow-list.\<close>

definition post_request :: "(string, string, nat) request" where
  "post_request = example_request\<lparr> req_method := ''POST'' \<rparr>"

text \<open>A timeout of 1 ms against a transport that is aborted before it answers.\<close>

definition slow_request :: "(string, string, nat) request" where
  "slow_request =
     example_request\<lparr> req_timeout := \<lparr> request_ms = Some 1, response_ms = None \<rparr>,
                      req_customFetch := (\<lambda>call w. (Rejected AbortError, Suc w)) \<rparr>"

text \<open>The example request with \<^verbatim>\<open>retry({limit: 2, delay: n => 250 * n})\<close>.\<close>

definition linear_backoff_request :: "(string, string, nat) request" where
  "linear_backoff_request =
     example_request\<lparr> req_retry := \<lparr> limit = Some 2, methods = None, statusCodes = None,
                                      delay = Some (\<lambda>n. 250 * int n) \<rparr> \<rparr>"



text \<open>
  After-response hooks: the first returns nothing, the second returns the response
  \<open>patched\<close>, the third throws unless it is given that response.
\<close>

definition patched :: "string response" where
  "patched = \<lparr> status = 503, statusText = ''Service Unavailable'', ok = False,
                res_text = ''busy'', body = Json ''{\"retry\":true}'', native = unavailable \<rparr>"

definition rewriting_request :: "(string, string, nat) request" where
  "rewriting_request =
     example_request\<lparr> req_hooks :=
       \<lparr> beforeRequest = [],
         afterResponse = [\<lambda>r w. (Inr None, w),
                          \<lambda>r w. (Inr (Some patched), w),
                          \<lambda>r w. (if body r = Json ''{\"retry\":true}'' then Inr None
                                  else Inl (OtherError ''not the replacement''), w)],
         beforeRetry = [],
         beforeError = [] \<rparr> \<rparr>"

text \<open>
  Before-error hooks: the first returns an \<open>HTTPError\<close> for a 502, the second throws
  unless it is given that error and then returns an \<open>HTTPError\<close> for a 500.
\<close>

definition bad_gateway :: "string response" where
  "bad_gateway = \<lparr> status = 502, statusText = ''Bad Gateway'', ok = False,
                    res_text = ''busy'', body = RawText ''busy'', native = unavailable \<rparr>"

definition server_error :: "string response" where
  "server_error = \<lparr> status = 500, statusText = ''Internal Server Error'', ok = False,
                     res_text = ''busy'', body = RawText ''busy'', native = unavailable \<rparr>"

definition error_rewriting_request :: "(string, string, nat) request" where
  "error_rewriting_request =
     example_request\<lparr> req_hooks :=
       \<lparr> beforeRequest = [], afterResponse = [], beforeRetry = [],
         beforeError = [\<lambda>e w. (Inr (HTTPError bad_gateway), w),
                        \<lambda>e w. (if error_status e = Some 502 then Inr (HTTPError server_error)
                                  else Inl (OtherError ''not the replacement''), w)] \<rparr> \<rparr>"

text \<open>A before-error hook that returns nothing.\<close>

definition silent_error_hook_request :: "(string, string, nat) request" where
  "silent_error_hook_request =
     example_request\<lparr> req_hooks :=
       \<lparr> beforeRequest = [], afterResponse = [], beforeRetry = [],
         beforeError = [\<lambda>e w. (Inr Nullish, w)] \<rparr> \<rparr>"

text \<open>
  A server that answers 200, and an after-response hook that throws at the first attempt
  only (the world counts the transport calls).
\<close>

definition okay :: native_response where
  "okay = \<lparr> n_status = 200, n_statusText = ''OK'', n_ok = True,
             n_contentType = Some ''application/json'', n_text = ''{\"id\":1}'' \<rparr>"

definition flaky_hook_request :: "(string, string, nat) request" where
  "flaky_hook_request =
     example_request\<lparr>
       req_customFetch := (\<lambda>call w. (Resolved okay, Suc w)),
       req_hooks :=
         \<lparr> beforeRequest = [],
           afterResponse = [\<lambda>r w. (if w = 1 then Inl (OtherError ''hook failed'') else Inr None, w)],
           beforeRetry = [\<lambda>e n w. (None, w)],
           beforeError = [] \<rparr> \<rparr>"

text \<open>A before-request hook that throws, on a request with a timeout of 5000 ms.\<close>

definition failing_hook_request :: "(string, string, nat) request" where
  "failing_hook_request =
     example_request\<lparr> req_hooks :=
       \<lparr> beforeRequest = [\<lambda>w. (Some (OtherError ''hook failed''), w)],
         afterResponse = [], beforeRetry = [], beforeError = [] \<rparr> \<rparr>"

section \<open>Properties\<close>

subsection \<open>What each part of an attempt leaves in the state\<close>

lemma emit_simps [simp]:
  "req (emit ev s) = req s" "world (emit ev s) = world s" "trace (emit ev s) = trace s @ [ev]"
  "timers (emit ev s) = timers s" "lastTimerId (emit ev s) = lastTimerId s"
  by (simp_all add: emit_def)

lemma run_beforeRequest_frame:
  "run_beforeRequest hs i s = (r, s') \<Longrightarrow>
     \<exists>evs. extends s s' evs \<and> list_all hook_event evs"
proof (induction hs arbitrary: i s)
  case Nil
  then show ?case by (auto simp: extends_def)
next
  case (Cons h hs)
  obtain res w where hw: "h (world s) = (res, w)" by (cases "h (world s)")
  let ?s1 = "(emit (BeforeRequestCalled i) s)\<lparr>world := w\<rparr>"
  show ?case
  proof (cases res)
    case None
    with Cons.prems hw have "run_beforeRequest hs (Suc i) ?s1 = (r, s')" by simp
    from Cons.IH[OF this] obtain evs where "extends ?s1 s' evs" "list_all hook_event evs" by blast
    then have "extends s s' (BeforeRequestCalled i # evs) \<and> list_all hook_event (BeforeRequestCalled i # evs)"
      by (simp add: extends_def)
    then show ?thesis by blast
  next
    case (Some e)
    with Cons.prems hw have "s' = ?s1" by simp
    then have "extends s s' [BeforeRequestCalled i] \<and> list_all hook_event [BeforeRequestCalled i]"
      by (simp add: extends_def)
    then show ?thesis by blast
  qed
qed

lemma run_afterResponse_frame:
  "run_afterResponse hs i r s = (res, s') \<Longrightarrow>
     \<exists>evs. extends s s' evs \<and> list_all hook_event evs"
proof (induction hs arbitrary: i r s)
  case Nil
  then show ?case by (auto simp: extends_def)
next
  case (Cons h hs)
  obtain out w where hw: "h r (world s) = (out, w)" by (cases "h r (world s)")
  let ?s1 = "(emit (AfterResponseCalled i) s)\<lparr>world := w\<rparr>"
  show ?case
  proof (cases out)
    case (Inr result)
    with Cons.prems hw have "run_afterResponse hs (Suc i)
        (case result of Some replacement \<Rightarrow> replacement | None \<Rightarrow> r) ?s1 = (res, s')" by simp
    from Cons.IH[OF this] obtain evs where "extends ?s1 s' evs" "list_all hook_event evs" by blast
    then have "extends s s' (AfterResponseCalled i # evs) \<and> list_all hook_event (AfterResponseCalled i # evs)"
      by (simp add: extends_def)
    then show ?thesis by blast
  next
    case (Inl e)
    with Cons.prems hw have "s' = ?s1" by simp
    then have "extends s s' [AfterResponseCalled i] \<and> list_all hook_event [AfterResponseCalled i]"
      by (simp add: extends_def)
    then show ?thesis by blast
  qed
qed

lemma run_beforeError_frame:
  "run_beforeError hs i err s = (res, s') \<Longrightarrow>
     \<exists>evs. extends s s' evs \<and> list_all hook_event evs"
proof (induction hs arbitrary: i err s)
  case Nil
  then show ?case by (auto simp: extends_def)
next
  case (Cons h hs)
  obtain out w where hw: "h err (world s) = (out, w)" by (cases "h err (world s)")
  let ?s1 = "(emit (BeforeErrorCalled i) s)\<lparr>world := w\<rparr>"
  show ?case
  proof (cases out)
    case (Inr returned)
    with Cons.prems hw have "run_beforeError hs (Suc i) returned ?s1 = (res, s')" by simp
    from Cons.IH[OF this] obtain evs where "extends ?s1 s' evs" "list_all hook_event evs" by blast
    then have "extends s s' (BeforeErrorCalled i # evs) \<and> list_all hook_event (BeforeErrorCalled i # evs)"
      by (simp add: extends_def)
    then show ?thesis by blast
  next
    case (Inl e)
    with Cons.prems hw have "s' = ?s1" by simp
    then have "extends s s' [BeforeErrorCalled i] \<and> list_all hook_event [BeforeErrorCalled i]"
      by (simp add: extends_def)
    then show ?thesis by blast
  qed
qed

lemma startTimer_frame:
  "startTimer t s = (tid, s') \<Longrightarrow> req s' = req s \<and> trace s' = trace s \<and> world s' = world s"
  by (auto simp: startTimer_def setTimeout_def Let_def split: option.splits if_splits)

lemma finally_block_frame [simp]:
  "req (finally_block tid s) = req s" "trace (finally_block tid s) = trace s"
  "world (finally_block tid s) = world s"
  by (simp_all add: finally_block_def clearTimeout_def split: option.splits)

lemma try_block_frame:
  assumes "try_block url bdy s = (out, s')"
  shows "\<exists>c evs. extends s s' (TransportCalled c # evs) \<and> list_all hook_event evs
           \<and> f_url c = url \<and> f_body c = bdy \<and> f_headers c = req_headers (req s)"
proof -
  let ?c = "\<lparr> f_url = url, f_method = req_method (req s), f_headers = req_headers (req s),
              f_body = bdy, f_credentials = req_credentials (req s),
              f_redirect = req_redirect (req s) \<rparr>"
  let ?s1 = "emit (TransportCalled ?c) s"
  obtain fr w where fw: "req_customFetch (req s) ?c (world ?s1) = (fr, w)"
    by (cases "req_customFetch (req s) ?c (world ?s1)")
  let ?s2 = "?s1\<lparr>world := w\<rparr>"
  have base: "extends s ?s2 [TransportCalled ?c]" by (simp add: extends_def)
  show ?thesis
  proof (cases fr)
    case (Rejected e)
    with assms fw have "s' = ?s2" by (simp add: try_block_def Let_def)
    with base have "extends s s' (TransportCalled ?c # []) \<and> list_all hook_event []
        \<and> f_url ?c = url \<and> f_body ?c = bdy \<and> f_headers ?c = req_headers (req s)"
      by simp
    then show ?thesis by blast
  next
    case (Resolved nr)
    let ?resp = "new_Response nr (n_text nr) (decodeBody (req s) nr)"
    obtain o3 s3 where ar: "run_afterResponse (afterResponse (req_hooks (req s))) 0 ?resp ?s2 = (o3, s3)"
      by (cases "run_afterResponse (afterResponse (req_hooks (req s))) 0 ?resp ?s2")
    from run_afterResponse_frame[OF ar] obtain evs3
      where e3: "extends ?s2 s3 evs3" "list_all hook_event evs3" by blast
    show ?thesis
    proof (cases o3)
      case (Inl e)
      with assms fw Resolved ar have "s' = s3" by (simp add: try_block_def Let_def)
      with e3 have "extends s s' (TransportCalled ?c # evs3) \<and> list_all hook_event evs3
          \<and> f_url ?c = url \<and> f_body ?c = bdy \<and> f_headers ?c = req_headers (req s)"
        by (simp add: extends_def)
      then show ?thesis by blast
    next
      case (Inr r')
      show ?thesis
      proof (cases "req_throwHttpErrors (req s) \<and> \<not> n_ok nr")
        case False
        with assms fw Resolved ar Inr have "s' = s3" by (auto simp add: try_block_def Let_def)
        with e3 have "extends s s' (TransportCalled ?c # evs3) \<and> list_all hook_event evs3
            \<and> f_url ?c = url \<and> f_body ?c = bdy \<and> f_headers ?c = req_headers (req s)"
          by (simp add: extends_def)
        then show ?thesis by blast
      next
        case True
        obtain e4 s4 where be: "run_beforeError (beforeError (req_hooks (req s))) 0 (HTTPError r') s3 = (e4, s4)"
          by (cases "run_beforeError (beforeError (req_hooks (req s))) 0 (HTTPError r') s3")
        from run_beforeError_frame[OF be] obtain evs4
          where e4: "extends s3 s4 evs4" "list_all hook_event evs4" by blast
        from assms fw Resolved ar Inr True be have "s' = s4" by (auto simp add: try_block_def Let_def)
        with e3 e4 have "extends s s' (TransportCalled ?c # (evs3 @ evs4)) \<and> list_all hook_event (evs3 @ evs4)
            \<and> f_url ?c = url \<and> f_body ?c = bdy \<and> f_headers ?c = req_headers (req s)"
          by (simp add: extends_def)
        then show ?thesis by blast
      qed
    qed
  qed
qed

lemma doFetch_frame:
  assumes "doFetch pf s = (out, s')"
  shows "req s' = (req s)\<lparr>req_headers := snd (prepareBody pf (req s))\<rparr>
       \<and> (\<exists>pre. list_all hook_event pre \<and>
            (trace s' = trace s @ DoFetchCalled # pre \<or>
             (\<exists>c post. trace s' = trace s @ DoFetchCalled # pre @ TransportCalled c # post
                \<and> list_all hook_event post
                \<and> f_url c = buildUrl pf (req s)
                \<and> f_body c = fst (prepareBody pf (req s))
                \<and> f_headers c = snd (prepareBody pf (req s)))))"
proof -
  let ?s1 = "emit DoFetchCalled s"
  let ?prepared = "prepareBody pf (req s)"
  let ?s2 = "?s1\<lparr>req := (req ?s1)\<lparr>req_headers := snd ?prepared\<rparr>\<rparr>"
  let ?ms = "or_number (request_ms (req_timeout (req ?s2))) (response_ms (req_timeout (req ?s2)))"
  obtain tid s3 where st: "startTimer ?ms ?s2 = (tid, s3)" by (cases "startTimer ?ms ?s2")
  from startTimer_frame[OF st]
  have s3: "req s3 = req ?s2" "trace s3 = trace ?s2" by simp_all
  obtain o4 s4 where br: "run_beforeRequest (beforeRequest (req_hooks (req s3))) 0 s3 = (o4, s4)"
    by (cases "run_beforeRequest (beforeRequest (req_hooks (req s3))) 0 s3")
  from run_beforeRequest_frame[OF br] obtain pre
    where pre: "extends s3 s4 pre" "list_all hook_event pre" by blast
  have s4: "req s4 = (req s)\<lparr>req_headers := snd ?prepared\<rparr>" "trace s4 = trace s @ DoFetchCalled # pre"
    using pre(1) s3 by (simp_all add: extends_def)
  show ?thesis
  proof (cases o4)
    case (Some e)
    with assms st br have "s' = s4" by (simp add: doFetch_def Let_def)
    with s4 pre(2) show ?thesis by blast
  next
    case None
    obtain o5 s5 where tb: "try_block (buildUrl pf (req s)) (fst ?prepared) s4 = (o5, s5)"
      by (cases "try_block (buildUrl pf (req s)) (fst ?prepared) s4")
    from try_block_frame[OF tb] obtain c post
      where post: "extends s4 s5 (TransportCalled c # post)" "list_all hook_event post"
        "f_url c = buildUrl pf (req s)" "f_body c = fst ?prepared" "f_headers c = req_headers (req s4)"
      by blast
    from assms st br None tb have "s' = finally_block tid s5"
      by (cases o5) (simp_all add: doFetch_def Let_def)
    then have "req s' = req s4" "trace s' = trace s4 @ TransportCalled c # post"
      using post(1) by (simp_all add: extends_def)
    with s4 post pre(2) show ?thesis by auto
  qed
qed

lemma attempts_append [simp]: "attempts (a @ b) = attempts a + attempts b"
  by (simp add: attempts_def)

lemma transport_calls_append [simp]: "transport_calls (a @ b) = transport_calls a + transport_calls b"
  by (simp add: transport_calls_def)

lemma retry_calls_append [simp]: "retry_calls i (a @ b) = retry_calls i a @ retry_calls i b"
  by (induction i a rule: retry_calls.induct) simp_all

lemma waits_append [simp]: "waits (a @ b) = waits a @ waits b"
  by (induction a rule: waits.induct) simp_all

lemma hook_events_count:
  "list_all hook_event evs \<Longrightarrow>
     attempts evs = 0 \<and> transport_calls evs = 0 \<and> retry_calls i evs = [] \<and> waits evs = []"
  by (induction evs) (auto simp: attempts_def transport_calls_def elim: hook_event.elims)

lemma doFetch_events:
  assumes "doFetch pf s = (out, s')"
  shows "\<exists>evs. trace s' = trace s @ evs \<and> attempts evs = 1 \<and> transport_calls evs \<le> 1
           \<and> (\<forall>i. retry_calls i evs = []) \<and> waits evs = []"
proof -
  from doFetch_frame[OF assms] obtain pre where pre: "list_all hook_event pre"
    and alt: "trace s' = trace s @ DoFetchCalled # pre \<or>
       (\<exists>c post. trace s' = trace s @ DoFetchCalled # pre @ TransportCalled c # post
           \<and> list_all hook_event post)" by blast
  from alt show ?thesis
  proof
    assume "trace s' = trace s @ DoFetchCalled # pre"
    moreover have "attempts (DoFetchCalled # pre) = 1" "transport_calls (DoFetchCalled # pre) \<le> 1"
      "\<forall>i. retry_calls i (DoFetchCalled # pre) = []" "waits (DoFetchCalled # pre) = []"
      using hook_events_count[OF pre] by (simp_all add: attempts_def transport_calls_def)
    ultimately show ?thesis by blast
  next
    assume "\<exists>c post. trace s' = trace s @ DoFetchCalled # pre @ TransportCalled c # post
           \<and> list_all hook_event post"
    then obtain c post where t: "trace s' = trace s @ DoFetchCalled # pre @ TransportCalled c # post"
      and post: "list_all hook_event post" by blast
    let ?evs = "DoFetchCalled # pre @ TransportCalled c # post"
    have "attempts ?evs = 1" "transport_calls ?evs \<le> 1"
      "\<forall>i. retry_calls i ?evs = []" "waits ?evs = []"
      using hook_events_count[OF pre] hook_events_count[OF post]
      by (simp_all add: attempts_def transport_calls_def)
    with t show ?thesis by blast
  qed
qed

lemma run_beforeRetry_frame:
  "run_beforeRetry hs i err n s = (r, s') \<Longrightarrow>
     \<exists>evs. extends s s' evs \<and> list_all is_BeforeRetryCalled evs"
proof (induction hs arbitrary: i s)
  case Nil
  then show ?case by (auto simp: extends_def)
next
  case (Cons h hs)
  obtain res w where hw: "h err n (world s) = (res, w)" by (cases "h err n (world s)")
  let ?s1 = "(emit (BeforeRetryCalled i n) s)\<lparr>world := w\<rparr>"
  show ?case
  proof (cases res)
    case None
    with Cons.prems hw have "run_beforeRetry hs (Suc i) err n ?s1 = (r, s')" by simp
    from Cons.IH[OF this] obtain evs where "extends ?s1 s' evs" "list_all is_BeforeRetryCalled evs" by blast
    then have "extends s s' (BeforeRetryCalled i n # evs) \<and> list_all is_BeforeRetryCalled (BeforeRetryCalled i n # evs)"
      by (simp add: extends_def)
    then show ?thesis by blast
  next
    case (Some e)
    with Cons.prems hw have "s' = ?s1" by simp
    then have "extends s s' [BeforeRetryCalled i n] \<and> list_all is_BeforeRetryCalled [BeforeRetryCalled i n]"
      by (simp add: extends_def)
    then show ?thesis by blast
  qed
qed

lemma retry_events_count:
  "list_all is_BeforeRetryCalled evs \<Longrightarrow>
     attempts evs = 0 \<and> transport_calls evs = 0 \<and> waits evs = []"
  by (induction evs) (auto simp: attempts_def transport_calls_def elim: is_BeforeRetryCalled.elims)

lemma upt_head: "[n ..< n + Suc k] = n # [Suc n ..< Suc n + k]"
  using upt_conv_Cons[of n "n + Suc k"] by (simp del: upt_Suc)

lemma execute_loop_backoff:
  "execute_loop pf lim allowed codes delayOf attempt lastError s = (out, s') \<Longrightarrow>
     \<exists>evs. trace s' = trace s @ evs
       \<and> (int attempt \<le> lim \<longrightarrow> 1 \<le> attempts evs)
       \<and> waits evs = map delayOf [Suc attempt ..< attempt + attempts evs]"
proof (induction pf lim allowed codes delayOf attempt lastError s rule: execute_loop.induct)
  case (1 pf lim allowed codes delayOf attempt lastError s)
  note unfold = execute_loop.simps[of pf lim allowed codes delayOf attempt lastError s]
  show ?case
  proof (cases "int attempt \<le> lim")
    case False
    with "1.prems" have "s' = s" by (simp add: unfold)
    with False have "trace s' = trace s @ [] \<and> (int attempt \<le> lim \<longrightarrow> 1 \<le> attempts [])
        \<and> waits [] = map delayOf [Suc attempt ..< attempt + attempts []]"
      by (simp add: attempts_def)
    then show ?thesis by blast
  next
    case True
    obtain o1 s1 where d: "doFetch pf s = (o1, s1)" by (cases "doFetch pf s")
    from doFetch_events[OF d] obtain evs1
      where evs1: "trace s1 = trace s @ evs1" "attempts evs1 = 1" "waits evs1 = []"
      by blast
    show ?thesis
    proof (cases "\<exists>err. o1 = Inl err \<and> req_method (req s1) \<in> set allowed \<and> \<not> is_TimeoutError err
          \<and> \<not> http_status_not_retryable codes err \<and> \<not> int attempt \<ge> lim")
      case False
      with "1.prems" True d have "s' = s1"
        by (cases o1) (auto simp: unfold split: if_splits)
      with evs1 have "trace s' = trace s @ evs1 \<and> (int attempt \<le> lim \<longrightarrow> 1 \<le> attempts evs1)
        \<and> waits evs1 = map delayOf [Suc attempt ..< attempt + attempts evs1]" by simp
      then show ?thesis by blast
    next
      case retry: True
      then obtain err where err: "o1 = Inl err" "req_method (req s1) \<in> set allowed"
          "\<not> is_TimeoutError err" "\<not> http_status_not_retryable codes err" "\<not> int attempt \<ge> lim"
        by blast
      obtain o2 s2
        where r: "run_beforeRetry (beforeRetry (req_hooks (req s1))) 0 err (attempt + 1) s1 = (o2, s2)"
        by (cases "run_beforeRetry (beforeRetry (req_hooks (req s1))) 0 err (attempt + 1) s1")
      from run_beforeRetry_frame[OF r] obtain evs2
        where evs2: "extends s1 s2 evs2" "list_all is_BeforeRetryCalled evs2" by blast
      have c2: "attempts evs2 = 0" "waits evs2 = []" using retry_events_count[OF evs2(2)] by simp_all
      show ?thesis
      proof (cases o2)
        case (Some e)
        with "1.prems" True d err r have "s' = s2" by (simp add: unfold)
        with evs1 evs2 c2 have "trace s' = trace s @ (evs1 @ evs2)
            \<and> (int attempt \<le> lim \<longrightarrow> 1 \<le> attempts (evs1 @ evs2))
            \<and> waits (evs1 @ evs2) = map delayOf [Suc attempt ..< attempt + attempts (evs1 @ evs2)]"
          by (simp add: extends_def)
        then show ?thesis by blast
      next
        case None
        let ?s3 = "emit (Waited (delayOf (attempt + 1))) s2"
        from "1.prems" True d err r None
        have rec: "execute_loop pf lim allowed codes delayOf (attempt + 1) err ?s3 = (out, s')"
          by (simp add: unfold)
        have "\<exists>evs. trace s' = trace ?s3 @ evs
           \<and> (int (attempt + 1) \<le> lim \<longrightarrow> 1 \<le> attempts evs)
           \<and> waits evs = map delayOf [Suc (attempt + 1) ..< attempt + 1 + attempts evs]"
          using "1.IH"[OF True d[symmetric] _ _ _ _ _ r[symmetric] _ rec] err None
          by simp
        then obtain evs3 where evs3: "trace s' = trace ?s3 @ evs3"
          "int (attempt + 1) \<le> lim \<longrightarrow> 1 \<le> attempts evs3"
          "waits evs3 = map delayOf [Suc (attempt + 1) ..< attempt + 1 + attempts evs3]" by blast
        from err(5) evs3(2) obtain k where k: "attempts evs3 = Suc k"
          by (cases "attempts evs3") auto
        let ?evs = "evs1 @ evs2 @ Waited (delayOf (attempt + 1)) # evs3"
        have t: "trace s' = trace s @ ?evs" using evs1 evs2 evs3 by (simp add: extends_def)
        have a: "attempts ?evs = Suc (Suc k)" using evs1(2) c2(1) k by (simp add: attempts_def)
        have "waits ?evs = delayOf (Suc attempt) # map delayOf [Suc (Suc attempt) ..< Suc (Suc attempt) + k]"
          using evs1(3) c2(2) evs3(3) k by simp
        also have "\<dots> = map delayOf [Suc attempt ..< Suc attempt + Suc k]"
          by (simp only: upt_head list.map)
        finally have "waits ?evs = map delayOf [Suc attempt ..< attempt + attempts ?evs]"
          by (simp only: a add_Suc_right add_Suc)
        with t a have "trace s' = trace s @ ?evs \<and> (int attempt \<le> lim \<longrightarrow> 1 \<le> attempts ?evs)
          \<and> waits ?evs = map delayOf [Suc attempt ..< attempt + attempts ?evs]" by simp
        then show ?thesis by blast
      qed
    qed
  qed
qed

lemma doFetch_req:
  "doFetch pf s = (out, s') \<Longrightarrow> req s' = (req s)\<lparr>req_headers := snd (prepareBody pf (req s))\<rparr>"
  using doFetch_frame by blast

lemma run_beforeRetry_quiet:
  assumes "\<forall>g\<in>set hs. \<forall>e n w. fst (g e n w) = None"
  shows "\<exists>s'. run_beforeRetry hs i err n s = (None, s')
           \<and> extends s s' (map (\<lambda>j. BeforeRetryCalled j n) [i ..< i + length hs])"
  using assms
proof (induction hs arbitrary: i s)
  case Nil
  then show ?case by (simp add: extends_def)
next
  case (Cons g hs)
  obtain w where gw: "g err n (world s) = (None, w)"
    using Cons.prems by (cases "g err n (world s)") (metis fst_conv list.set_intros(1))
  let ?s1 = "(emit (BeforeRetryCalled i n) s)\<lparr>world := w\<rparr>"
  from Cons.IH[of "Suc i" ?s1] Cons.prems obtain s'
    where s': "run_beforeRetry hs (Suc i) err n ?s1 = (None, s')"
      "extends ?s1 s' (map (\<lambda>j. BeforeRetryCalled j n) [Suc i ..< Suc i + length hs])"
    by auto
  have "[i ..< i + length (g # hs)] = i # [Suc i ..< Suc i + length hs]"
    using upt_head[of i "length hs"] by simp
  with s' gw have "run_beforeRetry (g # hs) i err n s = (None, s')
      \<and> extends s s' (map (\<lambda>j. BeforeRetryCalled j n) [i ..< i + length (g # hs)])"
    by (simp add: extends_def)
  then show ?case by blast
qed

lemma retry_calls_round:
  "retry_calls i (map (\<lambda>j. BeforeRetryCalled j n) [i0 ..< i0 + m]) =
     (if i0 \<le> i \<and> i < i0 + m then [n] else [])"
proof (induction m arbitrary: i0)
  case 0
  then show ?case by simp
next
  case (Suc m)
  have "[i0 ..< i0 + Suc m] = i0 # [Suc i0 ..< Suc i0 + m]" by (rule upt_head)
  then show ?case using Suc[of "Suc i0"] by auto
qed

lemma retry_round_count:
  "attempts (map (\<lambda>j. BeforeRetryCalled j n) xs) = 0
     \<and> waits (map (\<lambda>j. BeforeRetryCalled j n) xs) = []"
  by (induction xs) (simp_all add: attempts_def)

lemma execute_loop_exhausts:
  assumes fail: "\<And>s h. req s = rq\<lparr>req_headers := h\<rparr> \<Longrightarrow>
            \<exists>e s1. doFetch pf s = (Inl e, s1) \<and> \<not> is_TimeoutError e
               \<and> \<not> http_status_not_retryable codes e \<and> Q e"
    and meth: "req_method rq \<in> set allowed"
    and quiet: "\<forall>g\<in>set (beforeRetry (req_hooks rq)). \<forall>e n w. fst (g e n w) = None"
  shows "int a \<le> lim \<Longrightarrow> req s = rq\<lparr>req_headers := h\<rparr> \<Longrightarrow>
     \<exists>e s' evs. execute_loop pf lim allowed codes d a le s = (Inl e, s') \<and> Q e
        \<and> trace s' = trace s @ evs
        \<and> attempts evs = nat lim + 1 - a
        \<and> (\<forall>i<length (beforeRetry (req_hooks rq)). retry_calls i evs = [Suc a ..< nat lim + 1])
        \<and> waits evs = map d [Suc a ..< nat lim + 1]"
proof (induction "nat lim - a" arbitrary: a s h le)
  case 0
  then have last: "int a \<ge> lim" "int a \<le> lim" by simp_all
  from fail[OF "0.prems"(2)] obtain e s1 where d: "doFetch pf s = (Inl e, s1)"
    and e: "\<not> is_TimeoutError e" "\<not> http_status_not_retryable codes e" "Q e" by blast
  from doFetch_events[OF d] obtain evs where evs: "trace s1 = trace s @ evs" "attempts evs = 1"
    "\<forall>i. retry_calls i evs = []" "waits evs = []" by blast
  have "execute_loop pf lim allowed codes d a le s = (Inl e, s1)"
    using last d by (subst execute_loop.simps) simp
  moreover have "nat lim + 1 - a = 1" "[Suc a ..< nat lim + 1] = []" using last by simp_all
  ultimately show ?case using e evs by auto
next
  case (Suc k)
  then have more: "\<not> int a \<ge> lim" "int a \<le> lim" by simp_all
  from fail[OF Suc.prems(2)] obtain e s1 where d: "doFetch pf s = (Inl e, s1)"
    and e: "\<not> is_TimeoutError e" "\<not> http_status_not_retryable codes e" by blast
  from doFetch_events[OF d] obtain evs1 where evs1: "trace s1 = trace s @ evs1" "attempts evs1 = 1"
    "\<forall>i. retry_calls i evs1 = []" "waits evs1 = []" by blast
  have rq1: "req s1 = rq\<lparr>req_headers := snd (prepareBody pf (req s))\<rparr>"
    using doFetch_req[OF d] Suc.prems(2) by simp
  then have m1: "req_method (req s1) \<in> set allowed"
    and h1: "beforeRetry (req_hooks (req s1)) = beforeRetry (req_hooks rq)"
    using meth by simp_all
  let ?hs = "beforeRetry (req_hooks rq)"
  from run_beforeRetry_quiet[OF quiet, of 0 e "a + 1" s1] obtain s2
    where r: "run_beforeRetry ?hs 0 e (a + 1) s1 = (None, s2)"
      and x2: "extends s1 s2 (map (\<lambda>j. BeforeRetryCalled j (a + 1)) [0 ..< 0 + length ?hs])"
    by blast
  let ?evs2 = "map (\<lambda>j. BeforeRetryCalled j (a + 1)) [0 ..< 0 + length ?hs]"
  let ?s3 = "emit (Waited (d (a + 1))) s2"
  have step: "execute_loop pf lim allowed codes d a le s
      = execute_loop pf lim allowed codes d (a + 1) e ?s3"
    using more d e m1 h1 r by (subst execute_loop.simps) simp
  have rq3: "req ?s3 = rq\<lparr>req_headers := snd (prepareBody pf (req s))\<rparr>"
    using x2 rq1 by (simp add: extends_def)
  have k: "k = nat lim - (a + 1)" "int (a + 1) \<le> lim" using Suc.hyps(2) more by simp_all
  from Suc.hyps(1)[OF k rq3, of e] obtain e' s' evs3
    where rec: "execute_loop pf lim allowed codes d (a + 1) e ?s3 = (Inl e', s')" "Q e'"
      "trace s' = trace ?s3 @ evs3" "attempts evs3 = nat lim + 1 - (a + 1)"
      "\<forall>i<length ?hs. retry_calls i evs3 = [Suc (a + 1) ..< nat lim + 1]"
      "waits evs3 = map d [Suc (a + 1) ..< nat lim + 1]" by blast
  let ?evs = "evs1 @ ?evs2 @ Waited (d (a + 1)) # evs3"
  have c2: "attempts ?evs2 = 0" "waits ?evs2 = []"
    using retry_round_count[of "a + 1" "[0 ..< 0 + length ?hs]"] by simp_all
  have t: "trace s' = trace s @ ?evs" using rec(3) x2 evs1(1) by (simp add: extends_def)
  have lt: "Suc a < nat lim + 1" using more by simp
  have up: "[Suc a ..< nat lim + 1] = Suc a # [Suc (a + 1) ..< nat lim + 1]"
    using upt_conv_Cons[OF lt] by simp
  have at: "attempts ?evs = nat lim + 1 - a"
    using evs1(2) c2(1) rec(4) more by (simp add: attempts_def)
  have wt: "waits ?evs = map d [Suc a ..< nat lim + 1]"
    using evs1(4) c2(2) rec(6) up by simp
  have rt: "\<forall>i<length ?hs. retry_calls i ?evs = [Suc a ..< nat lim + 1]"
    using evs1(3) rec(5) up retry_calls_round[of _ "a + 1" 0 "length ?hs"] by simp
  have fin: "execute_loop pf lim allowed codes d a le s = (Inl e', s')"
    using step rec(1) by simp
  show ?case
    by (rule exI[of _ e'], rule exI[of _ s'], rule exI[of _ ?evs])
       (use fin rec(2) t at rt wt in blast)
qed

lemma run_beforeRequest_quiet:
  assumes "\<forall>g\<in>set hs. \<forall>w. fst (g w) = None"
  shows "\<exists>s'. run_beforeRequest hs i s = (None, s')"
  using assms
proof (induction hs arbitrary: i s)
  case Nil
  then show ?case by simp
next
  case (Cons g hs)
  obtain w where gw: "g (world s) = (None, w)"
    using Cons.prems by (cases "g (world s)") (metis fst_conv list.set_intros(1))
  with Cons.IH[of "Suc i" "(emit (BeforeRequestCalled i) s)\<lparr>world := w\<rparr>"] Cons.prems
  show ?case by auto
qed

lemma run_afterResponse_keeps:
  assumes "\<forall>g\<in>set hs. \<forall>r w. case fst (g r w) of
              Inl e \<Rightarrow> False | Inr None \<Rightarrow> True | Inr (Some r') \<Rightarrow> status r' \<in> set codes"
    and "status r \<in> set codes"
  shows "\<exists>r' s'. run_afterResponse hs i r s = (Inr r', s') \<and> status r' \<in> set codes"
  using assms
proof (induction hs arbitrary: i r s)
  case Nil
  then show ?case by simp
next
  case (Cons g hs)
  obtain out w where gw: "g r (world s) = (out, w)" by (cases "g r (world s)")
  from Cons.prems(1) have "case fst (g r (world s)) of
      Inl e \<Rightarrow> False | Inr None \<Rightarrow> True | Inr (Some r') \<Rightarrow> status r' \<in> set codes" by simp
  with gw obtain result where out: "out = Inr result"
    and res: "case result of None \<Rightarrow> True | Some r' \<Rightarrow> status r' \<in> set codes"
    by (cases out) auto
  let ?r1 = "case result of Some replacement \<Rightarrow> replacement | None \<Rightarrow> r"
  have "status ?r1 \<in> set codes" using res Cons.prems(2) by (cases result) simp_all
  from Cons.IH[OF _ this, of "Suc i" "(emit (AfterResponseCalled i) s)\<lparr>world := w\<rparr>"] Cons.prems(1)
  show ?case using gw out by simp
qed

lemma run_beforeError_keeps:
  assumes "\<forall>g\<in>set hs. \<forall>e w. retryable_http_error codes e \<longrightarrow>
            (case fst (g e w) of Inl thrown \<Rightarrow> False | Inr e' \<Rightarrow> retryable_http_error codes e')"
    and "retryable_http_error codes e"
  shows "\<exists>e' s'. run_beforeError hs i e s = (e', s') \<and> retryable_http_error codes e'"
  using assms
proof (induction hs arbitrary: i e s)
  case Nil
  then show ?case by simp
next
  case (Cons g hs)
  obtain out w where gw: "g e (world s) = (out, w)" by (cases "g e (world s)")
  from Cons.prems have "case fst (g e (world s)) of
      Inl thrown \<Rightarrow> False | Inr e' \<Rightarrow> retryable_http_error codes e'" by simp
  with gw obtain e1 where out: "out = Inr e1" and e1: "retryable_http_error codes e1"
    by (cases out) auto
  from Cons.IH[OF _ e1, of "Suc i" "(emit (BeforeErrorCalled i) s)\<lparr>world := w\<rparr>"] Cons.prems(1)
  show ?case using gw out by simp
qed

lemma try_block_fails_retryably:
  assumes tr: "transport_fails_retryably codes (req s)"
    and hk: "hooks_keep_failure codes (req_hooks (req s))"
    and th: "req_throwHttpErrors (req s)"
  shows "\<exists>e s'. try_block url bdy s = (Inl e, s') \<and> retryable_http_error codes e"
proof -
  let ?c = "\<lparr> f_url = url, f_method = req_method (req s), f_headers = req_headers (req s),
              f_body = bdy, f_credentials = req_credentials (req s),
              f_redirect = req_redirect (req s) \<rparr>"
  let ?s1 = "emit (TransportCalled ?c) s"
  from tr obtain nr w where fw: "req_customFetch (req s) ?c (world ?s1) = (Resolved nr, w)"
    and nr: "\<not> n_ok nr" "n_status nr \<in> set codes"
    unfolding transport_fails_retryably_def by blast
  let ?s2 = "?s1\<lparr>world := w\<rparr>"
  let ?resp = "new_Response nr (n_text nr) (decodeBody (req s) nr)"
  have "status ?resp \<in> set codes" using nr(2) by (simp add: new_Response_def)
  from run_afterResponse_keeps[OF _ this, of "afterResponse (req_hooks (req s))" 0 ?s2] hk
  obtain r' s3 where ar: "run_afterResponse (afterResponse (req_hooks (req s))) 0 ?resp ?s2 = (Inr r', s3)"
    and r': "status r' \<in> set codes"
    unfolding hooks_keep_failure_def by blast
  have "retryable_http_error codes (HTTPError r')" using r' by (simp add: retryable_http_error_def)
  from run_beforeError_keeps[OF _ this, of "beforeError (req_hooks (req s))" 0 s3] hk
  obtain e' s4 where be: "run_beforeError (beforeError (req_hooks (req s))) 0 (HTTPError r') s3 = (e', s4)"
    and e': "retryable_http_error codes e'"
    unfolding hooks_keep_failure_def by blast
  have "try_block url bdy s = (Inl e', s4)"
    using fw nr(1) ar be th by (simp add: try_block_def Let_def)
  with e' show ?thesis by blast
qed

lemma doFetch_fails_retryably:
  assumes tr: "transport_fails_retryably codes (req s)"
    and hk: "hooks_keep_failure codes (req_hooks (req s))"
    and th: "req_throwHttpErrors (req s)"
  shows "\<exists>e s'. doFetch pf s = (Inl e, s') \<and> retryable_http_error codes e"
proof -
  let ?s1 = "emit DoFetchCalled s"
  let ?prepared = "prepareBody pf (req s)"
  let ?s2 = "?s1\<lparr>req := (req ?s1)\<lparr>req_headers := snd ?prepared\<rparr>\<rparr>"
  let ?ms = "or_number (request_ms (req_timeout (req ?s2))) (response_ms (req_timeout (req ?s2)))"
  obtain tid s3 where st: "startTimer ?ms ?s2 = (tid, s3)" by (cases "startTimer ?ms ?s2")
  from startTimer_frame[OF st] have s3: "req s3 = req ?s2" by simp
  have hk3: "req_hooks (req s3) = req_hooks (req s)" using s3 by simp
  from run_beforeRequest_quiet[of "beforeRequest (req_hooks (req s3))" 0 s3] hk hk3
  obtain s4 where br: "run_beforeRequest (beforeRequest (req_hooks (req s3))) 0 s3 = (None, s4)"
    unfolding hooks_keep_failure_def by auto
  from run_beforeRequest_frame[OF br] have s4: "req s4 = req s3" by (auto simp: extends_def)
  have c4: "transport_fails_retryably codes (req s4)" "hooks_keep_failure codes (req_hooks (req s4))"
    "req_throwHttpErrors (req s4)"
    using tr hk th s3 s4 by (simp_all add: transport_fails_retryably_def)
  from try_block_fails_retryably[OF c4, of "buildUrl pf (req s)" "fst ?prepared"]
  obtain e s5 where tb: "try_block (buildUrl pf (req s)) (fst ?prepared) s4 = (Inl e, s5)"
    and e: "retryable_http_error codes e" by blast
  from e have ce: "catch_block e = e" by (cases e) (simp_all add: retryable_http_error_def)
  have "doFetch pf s = (Inl e, finally_block tid s5)"
    using st br tb ce by (simp add: doFetch_def Let_def)
  with e show ?thesis by blast
qed

lemmas example_defs = example_request_def example_platform_def unavailable_def initial_def
lemmas engine_defs = execute_def retryLimit_def retryMethods_def retryStatusCodes_def retryDelay_def
  DEFAULT_RETRY_METHODS_def DEFAULT_RETRY_STATUS_CODES_def defaultRetryDelay_def
  doFetch_def try_block_def decodeBody_def buildUrl_def prepareBody_def or_number_def or_empty_def
  startTimer_def setTimeout_def finally_block_def clearTimeout_def new_Response_def
  http_status_not_retryable_def emit_def Let_def

lemma retryable_http_error_retried:
  "retryable_http_error codes e \<Longrightarrow> \<not> is_TimeoutError e \<and> \<not> http_status_not_retryable codes e"
  by (cases e) (simp_all add: retryable_http_error_def http_status_not_retryable_def)

lemma doFetch_method:
  "doFetch pf s = (out, s') \<Longrightarrow> req_method (req s') = req_method (req s)"
  using doFetch_req[of pf s out s'] by simp

subsection \<open>Attempts whose transport answers\<close>

text \<open>The outcome of an attempt whose before-request hooks return and whose transport answers.\<close>

lemma try_block_resolved:
  assumes fetch: "\<forall>call w. \<exists>w'. req_customFetch (req s) call w = (Resolved nr, w')"
  shows "\<exists>s2. req s2 = req s \<and> try_block url bdy s =
     (case run_afterResponse (afterResponse (req_hooks (req s))) 0
             (new_Response nr (n_text nr) (decodeBody (req s) nr)) s2 of
        (Inl e, s3) \<Rightarrow> (Inl e, s3)
      | (Inr response', s3) \<Rightarrow>
          if req_throwHttpErrors (req s) \<and> \<not> n_ok nr then
            (case run_beforeError (beforeError (req_hooks (req s))) 0 (HTTPError response') s3 of
               (err, s4) \<Rightarrow> (Inl err, s4))
          else (Inr response', s3))"
proof -
  let ?c = "\<lparr> f_url = url, f_method = req_method (req s), f_headers = req_headers (req s),
              f_body = bdy, f_credentials = req_credentials (req s),
              f_redirect = req_redirect (req s) \<rparr>"
  let ?s1 = "emit (TransportCalled ?c) s"
  from fetch obtain w where fw: "req_customFetch (req s) ?c (world ?s1) = (Resolved nr, w)" by blast
  let ?s2 = "?s1\<lparr>world := w\<rparr>"
  have "req ?s2 = req s" by simp
  moreover have "try_block url bdy s =
     (case run_afterResponse (afterResponse (req_hooks (req s))) 0
             (new_Response nr (n_text nr) (decodeBody (req s) nr)) ?s2 of
        (Inl e, s3) \<Rightarrow> (Inl e, s3)
      | (Inr response', s3) \<Rightarrow>
          if req_throwHttpErrors (req s) \<and> \<not> n_ok nr then
            (case run_beforeError (beforeError (req_hooks (req s))) 0 (HTTPError response') s3 of
               (err, s4) \<Rightarrow> (Inl err, s4))
          else (Inr response', s3))"
    using fw by (simp add: try_block_def Let_def)
  ultimately show ?thesis by blast
qed

lemma doFetch_resolved:
  assumes quiet: "\<forall>g\<in>set (beforeRequest (req_hooks (req s))). \<forall>w. fst (g w) = None"
    and fetch: "\<forall>call w. \<exists>w'. req_customFetch (req s) call w = (Resolved nr, w')"
  shows "\<exists>s2. req s2 = (req s)\<lparr>req_headers := snd (prepareBody pf (req s))\<rparr>
     \<and> fst (doFetch pf s) =
     (case run_afterResponse (afterResponse (req_hooks (req s))) 0
             (new_Response nr (n_text nr) (decodeBody (req s) nr)) s2 of
        (Inl e, s3) \<Rightarrow> Inl (catch_block e)
      | (Inr response', s3) \<Rightarrow>
          if req_throwHttpErrors (req s) \<and> \<not> n_ok nr then
            Inl (catch_block (fst (run_beforeError (beforeError (req_hooks (req s))) 0
                                     (HTTPError response') s3)))
          else Inr response')"
proof -
  let ?s1 = "emit DoFetchCalled s"
  let ?prepared = "prepareBody pf (req s)"
  let ?s2 = "?s1\<lparr>req := (req ?s1)\<lparr>req_headers := snd ?prepared\<rparr>\<rparr>"
  let ?ms = "or_number (request_ms (req_timeout (req ?s2))) (response_ms (req_timeout (req ?s2)))"
  obtain tid s3 where st: "startTimer ?ms ?s2 = (tid, s3)" by (cases "startTimer ?ms ?s2")
  from startTimer_frame[OF st] have s3: "req s3 = req ?s2" by simp
  have hk3: "req_hooks (req s3) = req_hooks (req s)" using s3 by simp
  from run_beforeRequest_quiet[of "beforeRequest (req_hooks (req s3))" 0 s3] quiet hk3
  obtain s4 where br: "run_beforeRequest (beforeRequest (req_hooks (req s3))) 0 s3 = (None, s4)"
    by auto
  from run_beforeRequest_frame[OF br] have s4: "req s4 = req s3" by (auto simp: extends_def)
  have r4: "req s4 = (req s)\<lparr>req_headers := snd ?prepared\<rparr>" using s3 s4 by simp
  have f4: "\<forall>call w. \<exists>w'. req_customFetch (req s4) call w = (Resolved nr, w')"
    using fetch r4 by simp
  from try_block_resolved[OF f4, of "buildUrl pf (req s)" "fst ?prepared"]
  obtain s5 where r5: "req s5 = req s4" and tb: "try_block (buildUrl pf (req s)) (fst ?prepared) s4 =
     (case run_afterResponse (afterResponse (req_hooks (req s4))) 0
             (new_Response nr (n_text nr) (decodeBody (req s4) nr)) s5 of
        (Inl e, s3) \<Rightarrow> (Inl e, s3)
      | (Inr response', s3) \<Rightarrow>
          if req_throwHttpErrors (req s4) \<and> \<not> n_ok nr then
            (case run_beforeError (beforeError (req_hooks (req s4))) 0 (HTTPError response') s3 of
               (err, s4) \<Rightarrow> (Inl err, s4))
          else (Inr response', s3))" by blast
  have same: "req_hooks (req s4) = req_hooks (req s)" "req_throwHttpErrors (req s4) = req_throwHttpErrors (req s)"
    "decodeBody (req s4) nr = decodeBody (req s) nr"
    using r4 by (simp_all add: decodeBody_def Let_def)
  have "fst (doFetch pf s) =
     (case run_afterResponse (afterResponse (req_hooks (req s))) 0
             (new_Response nr (n_text nr) (decodeBody (req s) nr)) s5 of
        (Inl e, s3) \<Rightarrow> Inl (catch_block e)
      | (Inr response', s3) \<Rightarrow>
          if req_throwHttpErrors (req s) \<and> \<not> n_ok nr then
            Inl (catch_block (fst (run_beforeError (beforeError (req_hooks (req s))) 0
                                     (HTTPError response') s3)))
          else Inr response')"
    using st br tb unfolding same
    by (simp add: doFetch_def Let_def split: prod.splits sum.splits)
  with r5 r4 show ?thesis by auto
qed

lemma run_afterResponse_append:
  "run_afterResponse (xs @ ys) i r s =
     (case run_afterResponse xs i r s of
        (Inl e, s') \<Rightarrow> (Inl e, s')
      | (Inr r', s') \<Rightarrow> run_afterResponse ys (i + length xs) r' s')"
  by (induction xs arbitrary: i r s) (simp_all split: prod.splits sum.splits)

lemma run_afterResponse_returns:
  assumes "\<forall>g\<in>set hs. \<forall>r w. \<exists>res. fst (g r w) = Inr res"
  shows "\<exists>r' s'. run_afterResponse hs i r s = (Inr r', s')"
  using assms
proof (induction hs arbitrary: i r s)
  case Nil
  then show ?case by simp
next
  case (Cons g hs)
  from Cons.prems have "\<exists>res. fst (g r (world s)) = Inr res" by simp
  then obtain res where "fst (g r (world s)) = Inr res" by blast
  then obtain w where gw: "g r (world s) = (Inr res, w)" by (cases "g r (world s)") simp
  from Cons.IH[of "Suc i" "case res of Some replacement \<Rightarrow> replacement | None \<Rightarrow> r"
      "(emit (AfterResponseCalled i) s)\<lparr>world := w\<rparr>"] Cons.prems
  show ?case using gw by simp
qed

lemma run_afterResponse_unchanged:
  assumes "\<forall>g\<in>set hs. \<forall>w. fst (g r w) = Inr None"
  shows "\<exists>s'. run_afterResponse hs i r s = (Inr r, s')"
  using assms
proof (induction hs arbitrary: i s)
  case Nil
  then show ?case by simp
next
  case (Cons g hs)
  from Cons.prems have "fst (g r (world s)) = Inr None" by simp
  then obtain w where gw: "g r (world s) = (Inr None, w)" by (cases "g r (world s)") simp
  from Cons.IH[of "Suc i" "(emit (AfterResponseCalled i) s)\<lparr>world := w\<rparr>"] Cons.prems
  show ?case using gw by simp
qed

lemma run_beforeError_unchanged:
  assumes "\<forall>g\<in>set hs. \<forall>w. fst (g err w) = Inr err"
  shows "\<exists>s'. run_beforeError hs i err s = (err, s')"
  using assms
proof (induction hs arbitrary: i s)
  case Nil
  then show ?case by simp
next
  case (Cons g hs)
  from Cons.prems have "fst (g err (world s)) = Inr err" by simp
  then obtain w where gw: "g err (world s) = (Inr err, w)" by (cases "g err (world s)") simp
  from Cons.IH[of "Suc i" "(emit (BeforeErrorCalled i) s)\<lparr>world := w\<rparr>"] Cons.prems
  show ?case using gw by simp
qed

lemma run_beforeError_chain:
  assumes "length rs = length hs"
    and "\<forall>i<length hs. \<forall>w. fst ((hs ! i) (HTTPError ((r0 # rs) ! i)) w) = Inr (HTTPError (rs ! i))"
  shows "\<exists>s'. run_beforeError hs k (HTTPError r0) s = (HTTPError (last (r0 # rs)), s')"
  using assms
proof (induction hs arbitrary: rs r0 k s)
  case Nil
  then show ?case by simp
next
  case (Cons g hs)
  from Cons.prems(1) obtain r1 rs' where rs: "rs = r1 # rs'" "length rs' = length hs"
    by (cases rs) auto
  from Cons.prems(2) rs have "fst (g (HTTPError r0) (world s)) = Inr (HTTPError r1)"
    by (auto dest: spec[of _ 0])
  then obtain w where gw: "g (HTTPError r0) (world s) = (Inr (HTTPError r1), w)"
    by (cases "g (HTTPError r0) (world s)") simp
  have step: "\<forall>i<length hs. \<forall>w. fst ((hs ! i) (HTTPError ((r1 # rs') ! i)) w) = Inr (HTTPError (rs' ! i))"
  proof (intro allI impI)
    fix i w assume "i < length hs"
    then have "Suc i < length (g # hs)" by simp
    with Cons.prems(2) have "fst (((g # hs) ! Suc i) (HTTPError ((r0 # rs) ! Suc i)) w)
        = Inr (HTTPError (rs ! Suc i))" by blast
    then show "fst ((hs ! i) (HTTPError ((r1 # rs') ! i)) w) = Inr (HTTPError (rs' ! i))"
      using rs by simp
  qed
  from Cons.IH[OF rs(2) step, of "Suc k" "(emit (BeforeErrorCalled k) s)\<lparr>world := w\<rparr>"]
  show ?case using gw rs by simp
qed

subsection \<open>Hooks that throw, and the timer\<close>

lemma run_beforeRequest_append:
  "run_beforeRequest (xs @ ys) i s =
     (case run_beforeRequest xs i s of
        (Some e, s') \<Rightarrow> (Some e, s')
      | (None, s') \<Rightarrow> run_beforeRequest ys (i + length xs) s')"
  by (induction xs arbitrary: i s) (simp_all split: prod.splits option.splits)

text \<open>A before-request hook that throws ends the attempt with its error, outside the
  \<^verbatim>\<open>try\<close>: the timer that was started stays set.\<close>

lemma doFetch_before_request_throws:
  assumes hooks: "beforeRequest (req_hooks (req s)) = pre @ hook # post"
    and pre: "\<forall>g\<in>set pre. \<forall>w. fst (g w) = None"
    and hook: "\<forall>w. fst (hook w) = Some e"
  shows "fst (doFetch pf s) = Inl e"
    and "or_number (request_ms (req_timeout (req s))) (response_ms (req_timeout (req s))) = Some ms
         \<Longrightarrow> ms \<noteq> 0
         \<Longrightarrow> timers (snd (doFetch pf s)) = timers s @ [(Suc (lastTimerId s), ms)]"
proof -
  let ?s1 = "emit DoFetchCalled s"
  let ?prepared = "prepareBody pf (req s)"
  let ?s2 = "?s1\<lparr>req := (req ?s1)\<lparr>req_headers := snd ?prepared\<rparr>\<rparr>"
  let ?ms = "or_number (request_ms (req_timeout (req ?s2))) (response_ms (req_timeout (req ?s2)))"
  obtain tid s3 where st: "startTimer ?ms ?s2 = (tid, s3)" by (cases "startTimer ?ms ?s2")
  from startTimer_frame[OF st] have s3: "req s3 = req ?s2" by simp
  have hk3: "beforeRequest (req_hooks (req s3)) = pre @ hook # post" using s3 hooks by simp
  from run_beforeRequest_quiet[OF pre, of 0 s3]
  obtain s4 where p: "run_beforeRequest pre 0 s3 = (None, s4)" by blast
  obtain w where hw: "hook (world s4) = (Some e, w)"
    using hook by (cases "hook (world s4)") (metis fst_conv)
  let ?s5 = "(emit (BeforeRequestCalled (0 + length pre)) s4)\<lparr>world := w\<rparr>"
  have br: "run_beforeRequest (beforeRequest (req_hooks (req s3))) 0 s3 = (Some e, ?s5)"
    unfolding hk3 run_beforeRequest_append using p hw by simp
  have res: "doFetch pf s = (Inl e, ?s5)" using st br by (simp add: doFetch_def Let_def)
  then show "fst (doFetch pf s) = Inl e" by simp
  assume ms: "or_number (request_ms (req_timeout (req s))) (response_ms (req_timeout (req s))) = Some ms"
    "ms \<noteq> 0"
  then have "timers s3 = timers s @ [(Suc (lastTimerId s), ms)]"
    using st by (auto simp: startTimer_def setTimeout_def Let_def)
  moreover from run_beforeRequest_frame[OF p] have "timers s4 = timers s3" by (auto simp: extends_def)
  ultimately show "timers (snd (doFetch pf s)) = timers s @ [(Suc (lastTimerId s), ms)]"
    using res by simp
qed

lemma startTimer_timers:
  "startTimer t s = (tid, s') \<Longrightarrow>
     (tid = None \<and> timers s' = timers s) \<or>
     (\<exists>ms. tid = Some (Suc (lastTimerId s)) \<and> timers s' = timers s @ [(Suc (lastTimerId s), ms)])"
  by (cases t) (auto simp: startTimer_def setTimeout_def Let_def split: if_splits)

text \<open>Inside the \<^verbatim>\<open>try\<close> the timer is cleared, whatever the outcome.\<close>

lemma doFetch_clears_timer:
  assumes quiet: "\<forall>g\<in>set (beforeRequest (req_hooks (req s))). \<forall>w. fst (g w) = None"
    and fresh: "\<forall>t\<in>set (timers s). fst t \<le> lastTimerId s"
  shows "timers (snd (doFetch pf s)) = timers s"
proof -
  let ?s1 = "emit DoFetchCalled s"
  let ?prepared = "prepareBody pf (req s)"
  let ?s2 = "?s1\<lparr>req := (req ?s1)\<lparr>req_headers := snd ?prepared\<rparr>\<rparr>"
  let ?ms = "or_number (request_ms (req_timeout (req ?s2))) (response_ms (req_timeout (req ?s2)))"
  obtain tid s3 where st: "startTimer ?ms ?s2 = (tid, s3)" by (cases "startTimer ?ms ?s2")
  from startTimer_frame[OF st] have s3: "req s3 = req ?s2" by simp
  have hk3: "req_hooks (req s3) = req_hooks (req s)" using s3 by simp
  from run_beforeRequest_quiet[of "beforeRequest (req_hooks (req s3))" 0 s3] quiet hk3
  obtain s4 where br: "run_beforeRequest (beforeRequest (req_hooks (req s3))) 0 s3 = (None, s4)"
    by auto
  from run_beforeRequest_frame[OF br] have t4: "timers s4 = timers s3" by (auto simp: extends_def)
  obtain o5 s5 where tb: "try_block (buildUrl pf (req s)) (fst ?prepared) s4 = (o5, s5)"
    by (cases "try_block (buildUrl pf (req s)) (fst ?prepared) s4")
  from try_block_frame[OF tb] have t5: "timers s5 = timers s4" by (auto simp: extends_def)
  have res: "snd (doFetch pf s) = finally_block tid s5"
    using st br tb by (cases o5) (simp_all add: doFetch_def Let_def)
  have keep: "filter (\<lambda>t. fst t \<noteq> Suc (lastTimerId s)) (timers s) = timers s"
    unfolding filter_id_conv using fresh by fastforce
  have base: "timers ?s2 = timers s" "lastTimerId ?s2 = lastTimerId s" by simp_all
  from startTimer_timers[OF st] have "timers (finally_block tid s5) = timers s"
  proof
    assume "tid = None \<and> timers s3 = timers ?s2"
    with t4 t5 base show ?thesis by (simp add: finally_block_def)
  next
    assume "\<exists>ms. tid = Some (Suc (lastTimerId ?s2))
              \<and> timers s3 = timers ?s2 @ [(Suc (lastTimerId ?s2), ms)]"
    then obtain ms where "tid = Some (Suc (lastTimerId s))"
      "timers s3 = timers s @ [(Suc (lastTimerId s), ms)]" using base by auto
    with t4 t5 keep show ?thesis by (simp add: finally_block_def clearTimeout_def)
  qed
  with res show ?thesis by simp
qed

text \<open>An after-response hook that throws ends the attempt with its error, as the
  \<^verbatim>\<open>catch\<close> block passes it on.\<close>

lemma doFetch_after_response_throws:
  assumes quiet: "\<forall>g\<in>set (beforeRequest (req_hooks (req s))). \<forall>w. fst (g w) = None"
    and fetch: "\<forall>call w. \<exists>w'. req_customFetch (req s) call w = (Resolved nr, w')"
    and hooks: "afterResponse (req_hooks (req s)) = pre @ hook # post"
    and pre: "\<forall>g\<in>set pre. \<forall>r w. \<exists>res. fst (g r w) = Inr res"
    and hook: "\<forall>r w. fst (hook r w) = Inl e"
  shows "fst (doFetch pf s) = Inl (catch_block e)"
proof -
  let ?r0 = "new_Response nr (n_text nr) (decodeBody (req s) nr)"
  from doFetch_resolved[OF quiet fetch, of pf] obtain s2
    where "req s2 = (req s)\<lparr>req_headers := snd (prepareBody pf (req s))\<rparr>"
      and out: "fst (doFetch pf s) =
     (case run_afterResponse (afterResponse (req_hooks (req s))) 0 ?r0 s2 of
        (Inl e, s3) \<Rightarrow> Inl (catch_block e)
      | (Inr response', s3) \<Rightarrow>
          if req_throwHttpErrors (req s) \<and> \<not> n_ok nr then
            Inl (catch_block (fst (run_beforeError (beforeError (req_hooks (req s))) 0
                                     (HTTPError response') s3)))
          else Inr response')" by blast
  from run_afterResponse_returns[OF pre, of 0 ?r0 s2] obtain r1 s3
    where p: "run_afterResponse pre 0 ?r0 s2 = (Inr r1, s3)" by blast
  obtain w where hw: "hook r1 (world s3) = (Inl e, w)"
    using hook by (cases "hook r1 (world s3)") (metis fst_conv)
  have "fst (run_afterResponse (afterResponse (req_hooks (req s))) 0 ?r0 s2) = Inl e"
    unfolding hooks run_afterResponse_append using p hw by simp
  with out show ?thesis by (simp split: prod.splits sum.splits)
qed

text \<open>
  What the loop does with a failed attempt, whatever made it fail: the error of a hook
  that throws inside \<^verbatim>\<open>doFetch\<close> is such a failure.
\<close>

lemma execute_loop_failed_attempt:
  assumes a: "int attempt \<le> lim" and f: "doFetch pf s = (Inl err, s1)"
  shows "execute_loop pf lim allowed codes delayOf attempt lastError s =
     (if req_method (req s) \<notin> set allowed \<or> is_TimeoutError err
           \<or> http_status_not_retryable codes err \<or> lim \<le> int attempt
      then (Inl err, s1)
      else (case run_beforeRetry (beforeRetry (req_hooks (req s))) 0 err (attempt + 1) s1 of
              (Some e, s2) \<Rightarrow> (Inl e, s2)
            | (None, s2) \<Rightarrow>
                execute_loop pf lim allowed codes delayOf (attempt + 1) err
                  (emit (Waited (delayOf (attempt + 1))) s2)))"
proof -
  have "req_method (req s1) = req_method (req s)" "req_hooks (req s1) = req_hooks (req s)"
    using doFetch_req[OF f] by simp_all
  then show ?thesis using a f by (subst execute_loop.simps) simp
qed

lemma run_beforeError_throws:
  assumes "\<forall>g\<in>set pre. \<forall>x w. \<exists>y. fst (g x w) = Inr y"
    and "\<forall>x w. fst (hook x w) = Inl e"
  shows "fst (run_beforeError (pre @ hook # post) i err s) = e"
  using assms(1)
proof (induction pre arbitrary: i err s)
  case Nil
  obtain w where "hook err (world s) = (Inl e, w)"
    using assms(2) by (cases "hook err (world s)") (metis fst_conv)
  then show ?case by simp
next
  case (Cons g pre)
  from Cons.prems have "\<exists>y. fst (g err (world s)) = Inr y" by simp
  then obtain y w where gw: "g err (world s) = (Inr y, w)"
    by (cases "g err (world s)") auto
  from Cons.IH[of "Suc i" y "(emit (BeforeErrorCalled i) s)\<lparr>world := w\<rparr>"] Cons.prems
  show ?case using gw by simp
qed

text \<open>A before-error hook that throws: its error takes the place of the \<open>HTTPError\<close>.\<close>

lemma doFetch_before_error_throws:
  assumes quiet: "\<forall>g\<in>set (beforeRequest (req_hooks (req s))). \<forall>w. fst (g w) = None"
    and fetch: "\<forall>call w. \<exists>w'. req_customFetch (req s) call w = (Resolved nr, w')"
    and failed: "req_throwHttpErrors (req s)" "\<not> n_ok nr"
    and after: "\<forall>g\<in>set (afterResponse (req_hooks (req s))). \<forall>r w. \<exists>res. fst (g r w) = Inr res"
    and hooks: "beforeError (req_hooks (req s)) = pre @ hook # post"
    and pre: "\<forall>g\<in>set pre. \<forall>x w. \<exists>y. fst (g x w) = Inr y"
    and hook: "\<forall>x w. fst (hook x w) = Inl e"
  shows "fst (doFetch pf s) = Inl (catch_block e)"
proof -
  let ?r0 = "new_Response nr (n_text nr) (decodeBody (req s) nr)"
  from doFetch_resolved[OF quiet fetch, of pf] obtain s2
    where "req s2 = (req s)\<lparr>req_headers := snd (prepareBody pf (req s))\<rparr>"
      and out: "fst (doFetch pf s) =
     (case run_afterResponse (afterResponse (req_hooks (req s))) 0 ?r0 s2 of
        (Inl e, s3) \<Rightarrow> Inl (catch_block e)
      | (Inr response', s3) \<Rightarrow>
          if req_throwHttpErrors (req s) \<and> \<not> n_ok nr then
            Inl (catch_block (fst (run_beforeError (beforeError (req_hooks (req s))) 0
                                     (HTTPError response') s3)))
          else Inr response')" by blast
  from run_afterResponse_returns[OF after, of 0 ?r0 s2] obtain r1 s3
    where ar: "run_afterResponse (afterResponse (req_hooks (req s))) 0 ?r0 s2 = (Inr r1, s3)"
    by blast
  have "fst (run_beforeError (beforeError (req_hooks (req s))) 0 (HTTPError r1) s3) = e"
    unfolding hooks by (rule run_beforeError_throws[OF pre hook])
  with out ar failed show ?thesis by simp
qed

text \<open>A transport that is aborted: the attempt raises \<open>TimeoutError\<close>.\<close>

lemma doFetch_aborted:
  assumes quiet: "\<forall>g\<in>set (beforeRequest (req_hooks (req s))). \<forall>w. fst (g w) = None"
    and fetch: "\<forall>call w. \<exists>w'. req_customFetch (req s) call w = (Rejected AbortError, w')"
  shows "fst (doFetch pf s) = Inl TimeoutError"
proof -
  let ?s1 = "emit DoFetchCalled s"
  let ?prepared = "prepareBody pf (req s)"
  let ?s2 = "?s1\<lparr>req := (req ?s1)\<lparr>req_headers := snd ?prepared\<rparr>\<rparr>"
  let ?ms = "or_number (request_ms (req_timeout (req ?s2))) (response_ms (req_timeout (req ?s2)))"
  obtain tid s3 where st: "startTimer ?ms ?s2 = (tid, s3)" by (cases "startTimer ?ms ?s2")
  from startTimer_frame[OF st] have s3: "req s3 = req ?s2" by simp
  have hk3: "req_hooks (req s3) = req_hooks (req s)" using s3 by simp
  from run_beforeRequest_quiet[of "beforeRequest (req_hooks (req s3))" 0 s3] quiet hk3
  obtain s4 where br: "run_beforeRequest (beforeRequest (req_hooks (req s3))) 0 s3 = (None, s4)"
    by auto
  from run_beforeRequest_frame[OF br] have s4: "req s4 = req s3" by (auto simp: extends_def)
  have f4: "\<forall>call w. \<exists>w'. req_customFetch (req s4) call w = (Rejected AbortError, w')"
    using fetch s3 s4 by simp
  have "fst (try_block (buildUrl pf (req s)) (fst ?prepared) s4) = Inl AbortError"
  proof -
    let ?c = "\<lparr> f_url = buildUrl pf (req s), f_method = req_method (req s4),
                f_headers = req_headers (req s4), f_body = fst ?prepared,
                f_credentials = req_credentials (req s4), f_redirect = req_redirect (req s4) \<rparr>"
    from f4 obtain w where "req_customFetch (req s4) ?c (world (emit (TransportCalled ?c) s4))
        = (Rejected AbortError, w)" by blast
    then show ?thesis by (simp add: try_block_def Let_def)
  qed
  then obtain s5 where "try_block (buildUrl pf (req s)) (fst ?prepared) s4 = (Inl AbortError, s5)"
    by (cases "try_block (buildUrl pf (req s)) (fst ?prepared) s4") simp
  then show ?thesis using st br by (simp add: doFetch_def Let_def)
qed

subsection \<open>The claims\<close>

text \<open>
  C1. For every retry limit \<open>N \<ge> 0\<close>, a method in the retry allow-list, throw-on-HTTP-error
  enabled, a transport whose every response fails with a status in the retryable status
  set, and hooks that do not throw and leave the failure a retryable one: \<^verbatim>\<open>execute\<close>
  calls the attempt executor exactly \<open>N + 1\<close> times, calls each before-retry hook exactly
  \<open>N\<close> times, with the attempt numbers \<open>1, \<dots>, N\<close>, and then raises an \<open>HTTPError\<close>.
\<close>

theorem retry_exhaustion:
  assumes lim: "0 \<le> retryLimit (req s)"
    and meth: "req_method (req s) \<in> set (retryMethods (req s))"
    and th: "req_throwHttpErrors (req s)"
    and tr: "transport_fails_retryably (retryStatusCodes (req s)) (req s)"
    and hk: "hooks_keep_failure (retryStatusCodes (req s)) (req_hooks (req s))"
  shows "\<exists>r s' evs. execute pf s = (Inl (HTTPError r), s')
           \<and> trace s' = trace s @ evs
           \<and> attempts evs = nat (retryLimit (req s)) + 1
           \<and> (\<forall>i<length (beforeRetry (req_hooks (req s))).
                 retry_calls i evs = [1 ..< nat (retryLimit (req s)) + 1])"
proof -
  let ?rq = "req s"
  let ?codes = "retryStatusCodes ?rq"
  have fail: "\<exists>e s1. doFetch pf t = (Inl e, s1) \<and> \<not> is_TimeoutError e
               \<and> \<not> http_status_not_retryable ?codes e \<and> retryable_http_error ?codes e"
    if "req t = ?rq\<lparr>req_headers := h\<rparr>" for t h
  proof -
    have "transport_fails_retryably ?codes (req t)" "hooks_keep_failure ?codes (req_hooks (req t))"
      "req_throwHttpErrors (req t)"
      using that tr hk th by (simp_all add: transport_fails_retryably_def)
    from doFetch_fails_retryably[OF this, of pf] retryable_http_error_retried[of ?codes]
    show ?thesis by blast
  qed
  have quiet: "\<forall>g\<in>set (beforeRetry (req_hooks ?rq)). \<forall>e n w. fst (g e n w) = None"
    using hk by (simp add: hooks_keep_failure_def)
  have "\<exists>e s' evs. execute_loop pf (retryLimit ?rq) (retryMethods ?rq) ?codes (retryDelay ?rq)
            0 Nullish s = (Inl e, s') \<and> retryable_http_error ?codes e
        \<and> trace s' = trace s @ evs
        \<and> attempts evs = nat (retryLimit ?rq) + 1 - 0
        \<and> (\<forall>i<length (beforeRetry (req_hooks ?rq)).
              retry_calls i evs = [Suc 0 ..< nat (retryLimit ?rq) + 1])
        \<and> waits evs = map (retryDelay ?rq) [Suc 0 ..< nat (retryLimit ?rq) + 1]"
  proof (rule execute_loop_exhausts[where rq = ?rq and h = "req_headers ?rq"])
    show "\<exists>e s1. doFetch pf t = (Inl e, s1) \<and> \<not> is_TimeoutError e
               \<and> \<not> http_status_not_retryable ?codes e \<and> retryable_http_error ?codes e"
      if "req t = ?rq\<lparr>req_headers := h\<rparr>" for t h
      using fail[OF that] .
    show "req_method ?rq \<in> set (retryMethods ?rq)" by (rule meth)
    show "\<forall>g\<in>set (beforeRetry (req_hooks ?rq)). \<forall>e n w. fst (g e n w) = None" by (rule quiet)
    show "int 0 \<le> retryLimit ?rq" using lim by simp
    show "req s = ?rq\<lparr>req_headers := req_headers ?rq\<rparr>" by simp
  qed
  then obtain e s' evs where res: "execute pf s = (Inl e, s')" "retryable_http_error ?codes e"
    "trace s' = trace s @ evs" "attempts evs = nat (retryLimit ?rq) + 1"
    "\<forall>i<length (beforeRetry (req_hooks ?rq)). retry_calls i evs = [1 ..< nat (retryLimit ?rq) + 1]"
    unfolding execute_def by auto
  from res(2) obtain r where "e = HTTPError r"
    by (cases e) (simp_all add: retryable_http_error_def)
  with res show ?thesis by blast
qed

theorem retry_exhaustion_witness:
  "\<exists>r s'. execute example_platform (initial example_request 0) = (Inl (HTTPError r), s')
      \<and> attempts (trace s') = 3 \<and> retry_calls 0 (trace s') = [1, 2]"
proof -
  let ?s = "initial example_request (0::nat)"
  have h1: "0 \<le> retryLimit (req ?s)" by (simp add: example_defs retryLimit_def)
  have h2: "req_method (req ?s) \<in> set (retryMethods (req ?s))"
    by (simp add: example_defs retryMethods_def DEFAULT_RETRY_METHODS_def)
  have h3: "req_throwHttpErrors (req ?s)" by (simp add: example_defs)
  have h4: "transport_fails_retryably (retryStatusCodes (req ?s)) (req ?s)"
    by (simp add: example_defs transport_fails_retryably_def retryStatusCodes_def
          DEFAULT_RETRY_STATUS_CODES_def)
  have h5: "hooks_keep_failure (retryStatusCodes (req ?s)) (req_hooks (req ?s))"
    by (simp add: example_defs hooks_keep_failure_def)
  from retry_exhaustion[OF h1 h2 h3 h4 h5, of example_platform]
  obtain r s' evs where "execute example_platform ?s = (Inl (HTTPError r), s')"
    "trace s' = trace ?s @ evs" "attempts evs = nat (retryLimit (req ?s)) + 1"
    "\<forall>i<length (beforeRetry (req_hooks (req ?s))). retry_calls i evs = [1 ..< nat (retryLimit (req ?s)) + 1]"
    by blast
  then have "execute example_platform ?s = (Inl (HTTPError r), s')
      \<and> attempts (trace s') = 3 \<and> retry_calls 0 (trace s') = [1, 2]"
    by (simp add: example_defs retryLimit_def upt_rec)
  then show ?thesis by blast
qed

text \<open>
  C2, as the code has it. An error thrown by a hook inside an attempt (a before-request,
  after-response or before-error hook) makes \<^verbatim>\<open>doFetch\<close> fail, and the loop treats that
  failure as any other: it is raised again at once when the method is not in the retry
  allow-list, the error is a \<open>TimeoutError\<close> or an \<open>HTTPError\<close> with a status outside the
  retryable set, or no retry is left; otherwise the before-retry hooks run, the backoff
  delay is waited for and another attempt is made. An error thrown by a before-retry hook
  is raised at once, with no further attempt.
\<close>

theorem hook_error_retry_rules:
  assumes a: "int attempt \<le> lim" and f: "doFetch pf s = (Inl err, s1)"
  shows "(req_method (req s) \<notin> set allowed \<or> is_TimeoutError err
            \<or> http_status_not_retryable codes err \<or> lim \<le> int attempt
          \<longrightarrow> execute_loop pf lim allowed codes delayOf attempt lastError s = (Inl err, s1))
       \<and> (req_method (req s) \<in> set allowed \<and> \<not> is_TimeoutError err
            \<and> \<not> http_status_not_retryable codes err \<and> int attempt < lim
          \<longrightarrow> (\<forall>e s2. run_beforeRetry (beforeRetry (req_hooks (req s))) 0 err (attempt + 1) s1
                          = (Some e, s2)
                  \<longrightarrow> execute_loop pf lim allowed codes delayOf attempt lastError s = (Inl e, s2))
             \<and> (\<forall>s2. run_beforeRetry (beforeRetry (req_hooks (req s))) 0 err (attempt + 1) s1
                          = (None, s2)
                  \<longrightarrow> (\<exists>out s' evs.
                         execute_loop pf lim allowed codes delayOf attempt lastError s = (out, s')
                         \<and> trace s' = trace s2 @ Waited (delayOf (attempt + 1)) # evs
                         \<and> 1 \<le> attempts evs)))"
proof (intro conjI impI allI)
  assume "req_method (req s) \<notin> set allowed \<or> is_TimeoutError err
            \<or> http_status_not_retryable codes err \<or> lim \<le> int attempt"
  then show "execute_loop pf lim allowed codes delayOf attempt lastError s = (Inl err, s1)"
    using execute_loop_failed_attempt[OF a f, of allowed codes delayOf lastError] by simp
next
  fix e s2
  assume r: "req_method (req s) \<in> set allowed \<and> \<not> is_TimeoutError err
            \<and> \<not> http_status_not_retryable codes err \<and> int attempt < lim"
    and h: "run_beforeRetry (beforeRetry (req_hooks (req s))) 0 err (attempt + 1) s1 = (Some e, s2)"
  then show "execute_loop pf lim allowed codes delayOf attempt lastError s = (Inl e, s2)"
    using execute_loop_failed_attempt[OF a f, of allowed codes delayOf lastError] by simp
next
  fix s2
  assume r: "req_method (req s) \<in> set allowed \<and> \<not> is_TimeoutError err
            \<and> \<not> http_status_not_retryable codes err \<and> int attempt < lim"
    and h: "run_beforeRetry (beforeRetry (req_hooks (req s))) 0 err (attempt + 1) s1 = (None, s2)"
  let ?s3 = "emit (Waited (delayOf (attempt + 1))) s2"
  have step: "execute_loop pf lim allowed codes delayOf attempt lastError s
      = execute_loop pf lim allowed codes delayOf (attempt + 1) err ?s3"
    using execute_loop_failed_attempt[OF a f, of allowed codes delayOf lastError] r h by simp
  obtain out s' where rec: "execute_loop pf lim allowed codes delayOf (attempt + 1) err ?s3 = (out, s')"
    by (cases "execute_loop pf lim allowed codes delayOf (attempt + 1) err ?s3")
  from execute_loop_backoff[OF rec] r obtain evs
    where "trace s' = trace ?s3 @ evs" "1 \<le> attempts evs" by auto
  then have "execute_loop pf lim allowed codes delayOf attempt lastError s = (out, s')
      \<and> trace s' = trace s2 @ Waited (delayOf (attempt + 1)) # evs \<and> 1 \<le> attempts evs"
    using step rec by simp
  then show "\<exists>out s' evs.
       execute_loop pf lim allowed codes delayOf attempt lastError s = (out, s')
       \<and> trace s' = trace s2 @ Waited (delayOf (attempt + 1)) # evs \<and> 1 \<le> attempts evs"
    by blast
qed

text \<open>
  C2 as stated fails: with \<^verbatim>\<open>GET\<close>, \<^verbatim>\<open>retry(2)\<close> and an after-response hook that throws at
  the first attempt only, the execution makes a second attempt and succeeds; the hook's
  error never reaches the caller.
\<close>

theorem hook_error_terminal_counterexample:
  "fst (execute example_platform (initial flaky_hook_request 0))
     = Inr (new_Response okay ''{\"id\":1}'' (Json ''{\"id\":1}''))
   \<and> attempts (trace (snd (execute example_platform (initial flaky_hook_request 0)))) = 2"
  by code_simp

theorem hook_error_retry_rules_witness:
  "fst (doFetch example_platform (initial flaky_hook_request 0)) = Inl (OtherError ''hook failed'')
   \<and> 2 \<le> attempts (trace (snd (execute example_platform (initial flaky_hook_request 0))))"
proof -
  let ?s = "initial flaky_hook_request (0::nat)"
  let ?err = "OtherError ''hook failed'' :: string error"
  let ?s1 = "snd (doFetch example_platform ?s)"
  let ?s2 = "snd (run_beforeRetry (beforeRetry (req_hooks (req ?s))) 0 ?err (0 + 1) ?s1)"
  have e1: "fst (doFetch example_platform ?s) = Inl ?err"
    by (simp add: flaky_hook_request_def okay_def example_defs engine_defs)
  then have f: "doFetch example_platform ?s = (Inl ?err, ?s1)" by (simp add: prod_eq_iff)
  have a: "int 0 \<le> retryLimit (req ?s)"
    by (simp add: flaky_hook_request_def example_defs retryLimit_def)
  have r: "req_method (req ?s) \<in> set (retryMethods (req ?s)) \<and> \<not> is_TimeoutError ?err
      \<and> \<not> http_status_not_retryable (retryStatusCodes (req ?s)) ?err \<and> int 0 < retryLimit (req ?s)"
    by (simp add: flaky_hook_request_def example_defs retryLimit_def retryMethods_def
          DEFAULT_RETRY_METHODS_def http_status_not_retryable_def)
  have "fst (run_beforeRetry (beforeRetry (req_hooks (req ?s))) 0 ?err (0 + 1) ?s1) = None"
    by (simp add: flaky_hook_request_def example_defs split: prod.splits)
  then have h: "run_beforeRetry (beforeRetry (req_hooks (req ?s))) 0 ?err (0 + 1) ?s1 = (None, ?s2)"
    by (simp add: prod_eq_iff)
  have one: "attempts (trace ?s2) = 1" by code_simp
  note rules = hook_error_retry_rules[OF a f, of "retryMethods (req ?s)"
      "retryStatusCodes (req ?s)" "retryDelay (req ?s)" Nullish]
  from rules[THEN conjunct2, THEN mp, OF r, THEN conjunct2, THEN spec, THEN mp, OF h]
  obtain out s' evs where "execute example_platform ?s = (out, s')"
    "trace s' = trace ?s2 @ Waited (retryDelay (req ?s) (0 + 1)) # evs" "1 \<le> attempts evs"
    unfolding execute_def by blast
  then have "2 \<le> attempts (trace (snd (execute example_platform ?s)))"
    using one by (simp add: attempts_def)
  with e1 show ?thesis by simp
qed

text \<open>
  C3 (an attempt cancels its timer on every exit path) does not hold of \<^verbatim>\<open>doFetch\<close> when
  a before-request hook throws: the hooks run after \<^verbatim>\<open>setTimeout\<close> and before the \<^verbatim>\<open>try\<close>
  whose \<^verbatim>\<open>finally\<close> clears the timer (\<open>doFetch_clears_timer\<close> is the other paths). With
  a timeout of 5000 ms and a before-request hook that throws, the attempt ends with the
  hook's error and the timer it started is still set.
\<close>

theorem timer_not_cleared_when_before_request_hook_throws:
  "fst (doFetch example_platform (initial failing_hook_request 0)) = Inl (OtherError ''hook failed'')
   \<and> timers (initial failing_hook_request (0::nat)) = []
   \<and> timers (snd (doFetch example_platform (initial failing_hook_request 0))) = [(1, 5000)]"
  by (simp add: failing_hook_request_def example_defs engine_defs)

text \<open>
  C4 (a before-error hook that returns nothing leaves the error unchanged, and never an
  undefined error value is raised) does not hold of \<^verbatim>\<open>doFetch\<close>: the loop assigns
  \<^verbatim>\<open>error = await hook(error)\<close> whatever the hook returns, where the after-response loop
  beside it keeps the response when the hook returns nothing. With a hook that returns
  nothing on a failing \<^verbatim>\<open>GET\<close> with \<^verbatim>\<open>retry(2)\<close>, \<^verbatim>\<open>undefined\<close> is thrown, the \<^verbatim>\<open>catch\<close>
  block raises a \<open>TypeError\<close> on reading its \<^verbatim>\<open>name\<close>, and the loop retries that error:
  three attempts, and the \<open>HTTPError\<close> is lost.
\<close>

theorem before_error_hook_returning_nothing:
  "fst (doFetch example_platform (initial silent_error_hook_request 0)) = Inl TypeError
   \<and> fst (execute example_platform (initial silent_error_hook_request 0)) = Inl TypeError
   \<and> attempts (trace (snd (execute example_platform (initial silent_error_hook_request 0)))) = 3"
proof -
  have "fst (doFetch example_platform (initial silent_error_hook_request 0)) = Inl TypeError"
    by (simp add: silent_error_hook_request_def example_defs engine_defs)
  moreover have "fst (execute example_platform (initial silent_error_hook_request 0)) = Inl TypeError"
    by code_simp
  moreover have
    "attempts (trace (snd (execute example_platform (initial silent_error_hook_request 0)))) = 3"
    by code_simp
  ultimately show ?thesis by simp
qed

text \<open>
  The rest of the chain is as C4 says: the first before-error hook receives the
  \<open>HTTPError\<close> of the working response and every other hook the error the hook before it
  returned, and when each hook returns an \<open>HTTPError\<close>, the error raised is the one the
  last hook returned (the original one when there is no hook).
\<close>

lemma before_error_chain:
  assumes quiet: "\<forall>g\<in>set (beforeRequest (req_hooks (req s))). \<forall>w. fst (g w) = None"
    and fetch: "\<forall>call w. \<exists>w'. req_customFetch (req s) call w = (Resolved nr, w')"
    and failed: "req_throwHttpErrors (req s)" "\<not> n_ok nr"
    and after: "\<forall>g\<in>set (afterResponse (req_hooks (req s))). \<forall>r w. fst (g r w) = Inr None"
    and len: "length rs = length (beforeError (req_hooks (req s)))"
    and chain: "\<forall>i<length (beforeError (req_hooks (req s))). \<forall>w.
        fst ((beforeError (req_hooks (req s)) ! i)
               (HTTPError ((new_Response nr (n_text nr) (decodeBody (req s) nr) # rs) ! i)) w)
          = Inr (HTTPError (rs ! i))"
  shows "fst (doFetch pf s) =
           Inl (HTTPError (last (new_Response nr (n_text nr) (decodeBody (req s) nr) # rs)))"
proof -
  let ?r0 = "new_Response nr (n_text nr) (decodeBody (req s) nr)"
  from doFetch_resolved[OF quiet fetch, of pf] obtain s2
    where "req s2 = (req s)\<lparr>req_headers := snd (prepareBody pf (req s))\<rparr>"
      and out: "fst (doFetch pf s) =
     (case run_afterResponse (afterResponse (req_hooks (req s))) 0 ?r0 s2 of
        (Inl e, s3) \<Rightarrow> Inl (catch_block e)
      | (Inr response', s3) \<Rightarrow>
          if req_throwHttpErrors (req s) \<and> \<not> n_ok nr then
            Inl (catch_block (fst (run_beforeError (beforeError (req_hooks (req s))) 0
                                     (HTTPError response') s3)))
          else Inr response')" by blast
  have "\<forall>g\<in>set (afterResponse (req_hooks (req s))). \<forall>w. fst (g ?r0 w) = Inr None"
    using after by blast
  from run_afterResponse_unchanged[OF this, of 0 s2] obtain s3
    where ar: "run_afterResponse (afterResponse (req_hooks (req s))) 0 ?r0 s2 = (Inr ?r0, s3)"
    by blast
  from run_beforeError_chain[OF len chain, of 0 s3] obtain s4
    where be: "run_beforeError (beforeError (req_hooks (req s))) 0 (HTTPError ?r0) s3
               = (HTTPError (last (?r0 # rs)), s4)" by blast
  show ?thesis using out ar be failed by simp
qed

lemma before_error_chain_example:
  "fst (doFetch example_platform (initial error_rewriting_request 0)) = Inl (HTTPError server_error)"
proof -
  let ?s = "initial error_rewriting_request (0::nat)"
  let ?r0 = "new_Response unavailable (n_text unavailable) (decodeBody (req ?s) unavailable)"
  have b: "\<forall>g\<in>set (beforeRequest (req_hooks (req ?s))). \<forall>w. fst (g w) = None"
    by (simp add: error_rewriting_request_def example_defs)
  have c: "\<forall>call w. \<exists>w'. req_customFetch (req ?s) call w = (Resolved unavailable, w')"
    by (simp add: error_rewriting_request_def example_request_def example_platform_def initial_def)
  have d: "req_throwHttpErrors (req ?s)" "\<not> n_ok unavailable"
    by (simp_all add: error_rewriting_request_def example_defs)
  have e: "\<forall>g\<in>set (afterResponse (req_hooks (req ?s))). \<forall>r w. fst (g r w) = Inr None"
    by (simp add: error_rewriting_request_def example_defs)
  have l: "length [bad_gateway, server_error] = length (beforeError (req_hooks (req ?s)))"
    by (simp add: error_rewriting_request_def example_defs)
  have ch: "\<forall>i<length (beforeError (req_hooks (req ?s))). \<forall>w.
        fst ((beforeError (req_hooks (req ?s)) ! i)
               (HTTPError ((?r0 # [bad_gateway, server_error]) ! i)) w)
          = Inr (HTTPError ([bad_gateway, server_error] ! i))"
    by (simp add: error_rewriting_request_def example_defs less_Suc_eq bad_gateway_def)
  from before_error_chain[OF b c d e l ch, of example_platform]
  show ?thesis by simp
qed

text \<open>
  C5. For a request whose method is not in the retry allow-list and any retry limit
  \<open>\<ge> 0\<close>, an attempt that fails with an \<open>HTTPError\<close> (whatever its status, a retryable
  one included) is the only attempt: \<^verbatim>\<open>execute\<close> raises that error at once, calls no
  before-retry hook and waits for no backoff delay.
\<close>

theorem non_retryable_method_single_attempt:
  assumes lim: "0 \<le> retryLimit (req s)"
    and meth: "req_method (req s) \<notin> set (retryMethods (req s))"
    and fail: "doFetch pf s = (Inl (HTTPError r), s1)"
  shows "execute pf s = (Inl (HTTPError r), s1)
       \<and> (\<exists>evs. trace s1 = trace s @ evs \<and> attempts evs = 1
             \<and> (\<forall>i. retry_calls i evs = []) \<and> waits evs = [])"
proof -
  have "execute pf s = (Inl (HTTPError r), s1)"
    using lim meth fail doFetch_method[OF fail]
    by (simp add: execute_def execute_loop.simps[of _ _ _ _ _ 0])
  moreover from doFetch_events[OF fail]
  have "\<exists>evs. trace s1 = trace s @ evs \<and> attempts evs = 1
             \<and> (\<forall>i. retry_calls i evs = []) \<and> waits evs = []" by blast
  ultimately show ?thesis by simp
qed

theorem non_retryable_method_single_attempt_witness:
  "fst (execute example_platform (initial post_request 0))
     = Inl (HTTPError (new_Response unavailable ''busy'' (RawText ''busy'')))
   \<and> attempts (trace (snd (execute example_platform (initial post_request 0)))) = 1
   \<and> retry_calls 0 (trace (snd (execute example_platform (initial post_request 0)))) = []
   \<and> waits (trace (snd (execute example_platform (initial post_request 0)))) = []"
proof -
  let ?s = "initial post_request (0::nat)"
  let ?r = "new_Response unavailable ''busy'' (RawText ''busy'') :: string response"
  have h1: "0 \<le> retryLimit (req ?s)" by (simp add: post_request_def example_defs retryLimit_def)
  have h2: "req_method (req ?s) \<notin> set (retryMethods (req ?s))"
    by (simp add: post_request_def example_defs retryMethods_def DEFAULT_RETRY_METHODS_def)
  have "fst (doFetch example_platform ?s) = Inl (HTTPError ?r)"
    by (simp add: post_request_def example_defs engine_defs)
  then have h3: "doFetch example_platform ?s = (Inl (HTTPError ?r), snd (doFetch example_platform ?s))"
    by (simp add: prod_eq_iff)
  from non_retryable_method_single_attempt[OF h1 h2 h3]
  obtain evs where "execute example_platform ?s = (Inl (HTTPError ?r), snd (doFetch example_platform ?s))"
    "trace (snd (doFetch example_platform ?s)) = trace ?s @ evs" "attempts evs = 1"
    "\<forall>i. retry_calls i evs = []" "waits evs = []" by blast
  moreover have "trace ?s = []" by (simp add: initial_def)
  ultimately show ?thesis by simp
qed

text \<open>
  C6. In every iteration of the execution loop, an attempt that raises \<open>TimeoutError\<close>
  (as \<^verbatim>\<open>doFetch\<close> does when the transport is aborted, \<open>doFetch_aborted\<close>) ends the loop:
  the error is raised again at once, whatever the method, the retry limit, the retryable
  status set and the delay function; no before-retry hook is called and no backoff delay
  is waited for.
\<close>

theorem timeout_error_terminal:
  assumes "int attempt \<le> lim"
    and "doFetch pf s = (Inl TimeoutError, s1)"
  shows "execute_loop pf lim allowed codes delayOf attempt lastError s = (Inl TimeoutError, s1)
       \<and> (\<exists>evs. trace s1 = trace s @ evs \<and> attempts evs = 1
             \<and> (\<forall>i. retry_calls i evs = []) \<and> waits evs = [])"
proof -
  have "execute_loop pf lim allowed codes delayOf attempt lastError s = (Inl TimeoutError, s1)"
    using assms by (simp add: execute_loop.simps[of pf lim allowed codes delayOf attempt])
  moreover from doFetch_events[OF assms(2)]
  have "\<exists>evs. trace s1 = trace s @ evs \<and> attempts evs = 1
             \<and> (\<forall>i. retry_calls i evs = []) \<and> waits evs = []" by blast
  ultimately show ?thesis by simp
qed

theorem timeout_error_terminal_witness:
  "fst (execute example_platform (initial slow_request 0)) = Inl TimeoutError
   \<and> attempts (trace (snd (execute example_platform (initial slow_request 0)))) = 1
   \<and> retry_calls 0 (trace (snd (execute example_platform (initial slow_request 0)))) = []
   \<and> waits (trace (snd (execute example_platform (initial slow_request 0)))) = []"
proof -
  let ?s = "initial slow_request (0::nat)"
  have h1: "int 0 \<le> retryLimit (req ?s)" by (simp add: slow_request_def example_defs retryLimit_def)
  have "fst (doFetch example_platform ?s) = Inl TimeoutError"
    by (simp add: slow_request_def example_defs engine_defs)
  then have h2: "doFetch example_platform ?s = (Inl TimeoutError, snd (doFetch example_platform ?s))"
    by (simp add: prod_eq_iff)
  from timeout_error_terminal[OF h1 h2, of "retryMethods (req ?s)" "retryStatusCodes (req ?s)"
      "retryDelay (req ?s)" Nullish]
  obtain evs where "execute example_platform ?s = (Inl TimeoutError, snd (doFetch example_platform ?s))"
    "trace (snd (doFetch example_platform ?s)) = trace ?s @ evs" "attempts evs = 1"
    "\<forall>i. retry_calls i evs = []" "waits evs = []" unfolding execute_def by blast
  moreover have "trace ?s = []" by (simp add: initial_def)
  ultimately show ?thesis by simp
qed

text \<open>
  C7. The default delay for the attempt number \<open>n \<ge> 1\<close> is
  \<open>min (1000 * 2 ^ (n - 1)) 30000\<close> milliseconds; the delay function of \<^verbatim>\<open>execute\<close> is the
  default one when none is configured and the configured one otherwise; and the delays an
  execution waits for are, in order, that function applied to the attempt numbers
  \<open>1, 2, \<dots>\<close> of the retries: one delay before every attempt but the first.
\<close>

theorem backoff_delays:
  "(\<forall>n\<ge>1. defaultRetryDelay n = min (1000 * 2 ^ (n - 1)) 30000)
   \<and> (delay (req_retry (req s)) = None \<longrightarrow> retryDelay (req s) = defaultRetryDelay)
   \<and> (\<forall>d. delay (req_retry (req s)) = Some d \<longrightarrow> retryDelay (req s) = d)
   \<and> (\<exists>evs. trace (snd (execute pf s)) = trace s @ evs
         \<and> waits evs = map (retryDelay (req s)) [1 ..< attempts evs])"
proof -
  obtain out s' where ex: "execute pf s = (out, s')" by (cases "execute pf s")
  then have "execute_loop pf (retryLimit (req s)) (retryMethods (req s)) (retryStatusCodes (req s))
       (retryDelay (req s)) 0 Nullish s = (out, s')" by (simp add: execute_def)
  from execute_loop_backoff[OF this] ex
  have "\<exists>evs. trace (snd (execute pf s)) = trace s @ evs
         \<and> waits evs = map (retryDelay (req s)) [1 ..< attempts evs]" by auto
  then show ?thesis by (simp add: defaultRetryDelay_def retryDelay_def)
qed

theorem backoff_delays_witness:
  "waits (trace (snd (execute example_platform (initial example_request 0)))) = [1000, 2000]
   \<and> waits (trace (snd (execute example_platform (initial linear_backoff_request 0)))) = [250, 500]
   \<and> defaultRetryDelay 1 = 1000 \<and> defaultRetryDelay 5 = 16000 \<and> defaultRetryDelay 6 = 30000"
proof -
  let ?s = "initial example_request (0::nat)"
  let ?t = "initial linear_backoff_request (0::nat)"
  note bd = backoff_delays[of ?s example_platform]
  note bt = backoff_delays[of ?t example_platform]
  have n: "attempts (trace (snd (execute example_platform ?s))) = 3"
    "attempts (trace (snd (execute example_platform ?t))) = 3"
    by code_simp+
  have d: "\<forall>n\<ge>1. defaultRetryDelay n = min (1000 * 2 ^ (n - 1)) 30000"
    using bd by (rule conjunct1)
  have f: "retryDelay (req ?s) = defaultRetryDelay"
    using bd[THEN conjunct2, THEN conjunct1] by (simp add: example_defs)
  have g: "retryDelay (req ?t) = (\<lambda>n. 250 * int n)"
    using bt[THEN conjunct2, THEN conjunct2, THEN conjunct1]
    by (simp add: linear_backoff_request_def example_defs)
  from bd[THEN conjunct2, THEN conjunct2, THEN conjunct2]
  obtain evs where evs: "trace (snd (execute example_platform ?s)) = trace ?s @ evs"
      "waits evs = map (retryDelay (req ?s)) [1 ..< attempts evs]" by blast
  from bt[THEN conjunct2, THEN conjunct2, THEN conjunct2]
  obtain evt where evt: "trace (snd (execute example_platform ?t)) = trace ?t @ evt"
      "waits evt = map (retryDelay (req ?t)) [1 ..< attempts evt]" by blast
  have e: "trace (snd (execute example_platform ?s)) = evs" using evs(1) by (simp add: initial_def)
  have e': "trace (snd (execute example_platform ?t)) = evt" using evt(1) by (simp add: initial_def)
  have v: "defaultRetryDelay 1 = 1000" "defaultRetryDelay 2 = 2000"
    "defaultRetryDelay 5 = 16000" "defaultRetryDelay 6 = 30000"
    using d by simp_all
  have u: "[1 ..< 3] = [1, 2::nat]" by code_simp
  have "waits evs = map defaultRetryDelay [1 ..< 3]"
    using evs(2) n(1) by (simp only: e[symmetric] f)
  then have a: "waits evs = [1000, 2000]" using v by (simp only: u list.map)
  have "waits evt = map (\<lambda>n. 250 * int n) [1 ..< 3]"
    using evt(2) n(2) by (simp only: e'[symmetric] g)
  then have b: "waits evt = [250, 500]" by (simp only: u list.map) simp
  from a b v e e' show ?thesis by simp
qed

text \<open>
  C8. When an after-response hook returns a replacement (the hooks before it returning
  normally), the hooks after it are given the replacement, and when they return nothing
  for it, the replacement is the outcome: \<^verbatim>\<open>doFetch\<close> returns it on success, and with
  throw-on-HTTP-error enabled and a native response that is not ok it raises the
  \<open>HTTPError\<close> of the replacement (before-error hooks returning the error they are given).
\<close>

theorem after_response_replacement:
  assumes hooks: "afterResponse (req_hooks (req s)) = pre @ hook # post"
    and quiet: "\<forall>g\<in>set (beforeRequest (req_hooks (req s))). \<forall>w. fst (g w) = None"
    and fetch: "\<forall>call w. \<exists>w'. req_customFetch (req s) call w = (Resolved nr, w')"
    and pre: "\<forall>g\<in>set pre. \<forall>r w. \<exists>res. fst (g r w) = Inr res"
    and hook: "\<forall>r w. fst (hook r w) = Inr (Some replacement)"
    and post: "\<forall>g\<in>set post. \<forall>w. fst (g replacement w) = Inr None"
    and err: "\<forall>g\<in>set (beforeError (req_hooks (req s))). \<forall>w.
                fst (g (HTTPError replacement) w) = Inr (HTTPError replacement)"
  shows "fst (doFetch pf s) =
           (if req_throwHttpErrors (req s) \<and> \<not> n_ok nr
            then Inl (HTTPError replacement) else Inr replacement)"
proof -
  let ?r0 = "new_Response nr (n_text nr) (decodeBody (req s) nr)"
  from doFetch_resolved[OF quiet fetch, of pf] obtain s2
    where "req s2 = (req s)\<lparr>req_headers := snd (prepareBody pf (req s))\<rparr>"
      and out: "fst (doFetch pf s) =
     (case run_afterResponse (afterResponse (req_hooks (req s))) 0 ?r0 s2 of
        (Inl e, s3) \<Rightarrow> Inl (catch_block e)
      | (Inr response', s3) \<Rightarrow>
          if req_throwHttpErrors (req s) \<and> \<not> n_ok nr then
            Inl (catch_block (fst (run_beforeError (beforeError (req_hooks (req s))) 0
                                     (HTTPError response') s3)))
          else Inr response')" by blast
  from run_afterResponse_returns[OF pre, of 0 ?r0 s2] obtain r1 s3
    where p: "run_afterResponse pre 0 ?r0 s2 = (Inr r1, s3)" by blast
  obtain w where hw: "hook r1 (world s3) = (Inr (Some replacement), w)"
    using hook by (cases "hook r1 (world s3)") (metis fst_conv)
  let ?s4 = "(emit (AfterResponseCalled (0 + length pre)) s3)\<lparr>world := w\<rparr>"
  from run_afterResponse_unchanged[OF post, of "Suc (0 + length pre)" ?s4] obtain s5
    where q: "run_afterResponse post (Suc (0 + length pre)) replacement ?s4 = (Inr replacement, s5)"
    by blast
  have chain: "run_afterResponse (afterResponse (req_hooks (req s))) 0 ?r0 s2 = (Inr replacement, s5)"
    unfolding hooks run_afterResponse_append using p hw q by simp
  from run_beforeError_unchanged[OF err, of 0 s5] obtain s6
    where be: "run_beforeError (beforeError (req_hooks (req s))) 0 (HTTPError replacement) s5
               = (HTTPError replacement, s6)" by blast
  show ?thesis using out chain be by simp
qed

theorem after_response_replacement_witness:
  "fst (doFetch example_platform (initial rewriting_request 0)) = Inl (HTTPError patched)
   \<and> fst (doFetch example_platform
           (initial (rewriting_request\<lparr> req_throwHttpErrors := False \<rparr>) 0)) = Inr patched"
proof -
  let ?s = "initial rewriting_request (0::nat)"
  let ?t = "initial (rewriting_request\<lparr> req_throwHttpErrors := False \<rparr>) (0::nat)"
  let ?h0 = "(\<lambda>r w. (Inr None, w)) :: (string, nat) after_response_hook"
  let ?h1 = "(\<lambda>r w. (Inr (Some patched), w)) :: (string, nat) after_response_hook"
  let ?h2 = "(\<lambda>r w. (if body r = Json ''{\"retry\":true}'' then Inr None
                         else Inl (OtherError ''not the replacement''), w))
             :: (string, nat) after_response_hook"
  have a: "afterResponse (req_hooks (req ?s)) = [?h0] @ ?h1 # [?h2]"
    "afterResponse (req_hooks (req ?t)) = [?h0] @ ?h1 # [?h2]"
    by (simp_all add: rewriting_request_def example_defs)
  have b: "\<forall>g\<in>set (beforeRequest (req_hooks (req ?s))). \<forall>w. fst (g w) = None"
    "\<forall>g\<in>set (beforeRequest (req_hooks (req ?t))). \<forall>w. fst (g w) = None"
    by (simp_all add: rewriting_request_def example_defs)
  have c: "\<forall>call w. \<exists>w'. req_customFetch (req ?s) call w = (Resolved unavailable, w')"
    "\<forall>call w. \<exists>w'. req_customFetch (req ?t) call w = (Resolved unavailable, w')"
    by (simp_all add: rewriting_request_def example_request_def example_platform_def initial_def)
  have d: "\<forall>g\<in>set [?h0]. \<forall>r w. \<exists>res. fst (g r w) = Inr res" by simp
  have e: "\<forall>r w. fst (?h1 r w) = Inr (Some patched)" by simp
  have f: "\<forall>g\<in>set [?h2]. \<forall>w. fst (g patched w) = Inr None" by (simp add: patched_def)
  have g: "\<forall>g\<in>set (beforeError (req_hooks (req ?s))). \<forall>w.
             fst (g (HTTPError patched) w) = Inr (HTTPError patched)"
    "\<forall>g\<in>set (beforeError (req_hooks (req ?t))). \<forall>w.
             fst (g (HTTPError patched) w) = Inr (HTTPError patched)"
    by (simp_all add: rewriting_request_def example_defs)
  have "req_throwHttpErrors (req ?s) \<and> \<not> n_ok unavailable" "\<not> req_throwHttpErrors (req ?t)"
    by (simp_all add: rewriting_request_def example_defs)
  with after_response_replacement[OF a(1) b(1) c(1) d e f g(1), of example_platform]
    after_response_replacement[OF a(2) b(2) c(2) d e f g(2), of example_platform]
  show ?thesis by simp
qed



text \<open>
  C10. \<^verbatim>\<open>blob()\<close> and \<^verbatim>\<open>arrayBuffer()\<close> call the attempt executor directly: whatever the
  retry limit, they make exactly one attempt (with at most one transport call), call no
  before-retry hook and wait for no backoff delay, and leave the state one \<^verbatim>\<open>doFetch\<close>
  leaves; \<^verbatim>\<open>then()\<close>, \<^verbatim>\<open>end()\<close>, \<^verbatim>\<open>json()\<close> and \<^verbatim>\<open>text()\<close> go through the execution loop.
\<close>

theorem shortcuts_blob_arrayBuffer_single_attempt:
  "(\<exists>evs. trace (snd (Request_blob pf s)) = trace s @ evs \<and> attempts evs = 1
       \<and> transport_calls evs \<le> 1 \<and> (\<forall>i. retry_calls i evs = []) \<and> waits evs = [])
   \<and> (\<exists>evs. trace (snd (Request_arrayBuffer pf s)) = trace s @ evs \<and> attempts evs = 1
       \<and> transport_calls evs \<le> 1 \<and> (\<forall>i. retry_calls i evs = []) \<and> waits evs = [])
   \<and> snd (Request_blob pf s) = snd (doFetch pf s)
   \<and> snd (Request_arrayBuffer pf s) = snd (doFetch pf s)
   \<and> snd (Request_json pf s) = snd (execute pf s)
   \<and> snd (Request_text pf s) = snd (execute pf s)
   \<and> Request_then pf s = execute pf s
   \<and> Request_end pf s = execute pf s"
proof -
  obtain out s' where d: "doFetch pf s = (out, s')" by (cases "doFetch pf s")
  have b: "snd (Request_blob pf s) = s'" and a: "snd (Request_arrayBuffer pf s) = s'"
    using d by (simp_all add: Request_blob_def Request_arrayBuffer_def split: sum.splits)
  have j: "snd (Request_json pf s) = snd (execute pf s)" "snd (Request_text pf s) = snd (execute pf s)"
    by (simp_all add: Request_json_def Request_text_def split: prod.splits sum.splits)
  from doFetch_events[OF d] b a j d show ?thesis
    by (simp add: Request_then_def Request_end_def)
qed

theorem shortcuts_blob_arrayBuffer_single_attempt_witness:
  "attempts (trace (snd (Request_blob example_platform (initial example_request 0)))) = 1
   \<and> waits (trace (snd (Request_blob example_platform (initial example_request 0)))) = []
   \<and> attempts (trace (snd (Request_arrayBuffer example_platform (initial example_request 0)))) = 1
   \<and> attempts (trace (snd (Request_json example_platform (initial example_request 0)))) = 3
   \<and> waits (trace (snd (Request_json example_platform (initial example_request 0)))) = [1000, 2000]"
proof -
  let ?s = "initial example_request (0::nat)"
  have j: "attempts (trace (snd (execute example_platform ?s))) = 3"
    "waits (trace (snd (execute example_platform ?s))) = [1000, 2000]"
    by code_simp+
  have t: "trace ?s = []" by (simp add: initial_def)
  from shortcuts_blob_arrayBuffer_single_attempt[of example_platform ?s] j t
  show ?thesis by auto
qed

end
